theory Spec2Isabelle
  imports Complex_Main "HOL-Library.Multiset" "HOL-Library.Sublist" "HOL-Library.Char_ord"
    "HOL-Library.List_Lexorder"
begin

section \<open>Data model\<close>

text \<open>
  Actions and contexts are Python dicts read with \<^verbatim>\<open>.get(key, default)\<close>. Every key
  the policy engine and the agents read is a field of option type: \<open>None\<close> is the absent
  key, and each reader below writes out the default the source gives at that place.
  Energy figures are Python ints (the command hub supplies \<^verbatim>\<open>int(current_demand)\<close>, the
  agents supply integer literals); temperature and sensor connectivity are exact rationals,
  compared as the source compares them. The zone key is a string, as every agent emits it:
  the zone stage uses it as a dict key, which a list could not be.
\<close>

record action =
  action :: "string option"
  priority :: "string option"
  zones :: "string option"
  energy_impact_mw :: "int option"
  reason :: "string option"
  scope_reduced :: "bool option"

record ctxt =
  temperature :: "rat option"
  flood_risk :: "string option"
  aqi :: "int option"
  energy_load :: "int option"
  temp_forecast :: "rat option option"
  flood_forecast :: "string option"
  system_health :: "string option"
  sensor_connectivity :: "rat option"
  pending_actions :: "action list option"

text \<open>
  \<open>temp_forecast\<close>: \<open>None\<close> is a missing or empty (falsy) forecast, \<open>Some m\<close> a forecast
  whose \<^verbatim>\<open>statistics.maximum\<close> is \<open>m\<close> (\<open>None\<close>: not given). \<open>flood_forecast\<close> is the
  value of \<^verbatim>\<open>flood_forecast.risk_assessment.overall_risk\<close>, \<open>None\<close> when any key on that path
  is absent (each \<^verbatim>\<open>.get\<close> on the path defaults to an empty dict). The anomaly summaries of
  the context are only echoed into the analyses and are left out, with the echoed keys.
\<close>

datatype effect = BLOCK | DEFER | MODIFY | ALLOW

record policy =
  policy_id :: string
  rule :: string
  condition :: "ctxt \<Rightarrow> action \<Rightarrow> bool"
  effect :: effect
  modification :: "(action \<Rightarrow> action) option"
  policy_reason :: "string option"

record safety_check =
  check_id :: string
  check :: "ctxt \<Rightarrow> bool"
  message :: string

record violation =
  v_policy_id :: string
  v_rule :: string
  v_reason :: string

record modification_note =
  m_policy_id :: string
  m_modification :: string

record safety_result =
  r_check_id :: string
  passed :: bool
  r_message :: string

text \<open>
  \<^verbatim>\<open>validate_action\<close> returns one of two dict shapes: the early return of a DEFER policy
  (keys valid, action = "DEFER", reason) or the full verdict.
\<close>

datatype validation =
  Deferred string
  | Verdict bool "violation list" "modification_note list" "safety_result list" action

fun valid :: "validation \<Rightarrow> bool" where
  "valid (Deferred r) = False"
| "valid (Verdict v vs ms rs a) = v"

fun safety_checks_of :: "validation \<Rightarrow> safety_result list option" where
  "safety_checks_of (Deferred r) = None"
| "safety_checks_of (Verdict v vs ms rs a) = Some rs"

fun validated_action :: "validation \<Rightarrow> action option" where
  "validated_action (Deferred r) = None"
| "validated_action (Verdict v vs ms rs a) = Some a"

section \<open>Helpers for the dict reads\<close>

fun starts_with :: "string \<Rightarrow> string \<Rightarrow> bool" where
  "starts_with [] s = True"
| "starts_with (c # cs) [] = False"
| "starts_with (c # cs) (d # ds) = (c = d \<and> starts_with cs ds)"

text \<open>Python's \<^verbatim>\<open>sub in s\<close> on strings.\<close>

fun str_in :: "string \<Rightarrow> string \<Rightarrow> bool" where
  "str_in sub [] = (sub = [])"
| "str_in sub (c # cs) = (starts_with sub (c # cs) \<or> str_in sub cs)"

definition get_action :: "action \<Rightarrow> string" where
  "get_action a = (case action a of None \<Rightarrow> '''' | Some n \<Rightarrow> n)"

definition get_impact :: "action \<Rightarrow> int" where
  "get_impact a = (case energy_impact_mw a of None \<Rightarrow> 0 | Some i \<Rightarrow> i)"

definition get_reason :: "action \<Rightarrow> string" where
  "get_reason a = (case reason a of None \<Rightarrow> '''' | Some r \<Rightarrow> r)"

definition get_zones :: "action \<Rightarrow> string" where
  "get_zones a = (case zones a of None \<Rightarrow> ''unknown'' | Some z \<Rightarrow> z)"

definition energy_load_or :: "int \<Rightarrow> ctxt \<Rightarrow> int" where
  "energy_load_or d ctx = (case energy_load ctx of None \<Rightarrow> d | Some l \<Rightarrow> l)"

definition get_aqi :: "int \<Rightarrow> ctxt \<Rightarrow> int" where
  "get_aqi d ctx = (case aqi ctx of None \<Rightarrow> d | Some q \<Rightarrow> q)"

definition get_pending :: "ctxt \<Rightarrow> action list" where
  "get_pending ctx = (case pending_actions ctx of None \<Rightarrow> [] | Some p \<Rightarrow> p)"

text \<open>
  \<^verbatim>\<open>context.get("energy_load", 0) / 6000\<close>: true division of an int, taken as the exact
  quotient. Python returns the nearest float, and the thresholds of the policies fall on the
  integer loads 4800 and 5400, so each comparison decides as the exact quotient does; once
  the quotient leaves the float range (a load beyond about \<open>10^312\<close>) Python raises
  \<^verbatim>\<open>OverflowError\<close> instead, which this function does not show. A statement on what
  validation returns for every context therefore bounds the load.
\<close>

definition load_ratio :: "ctxt \<Rightarrow> rat" where
  "load_ratio ctx = of_int (energy_load_or 0 ctx) / 6000"

definition priority_order :: "string \<Rightarrow> nat option" where
  "priority_order p =
     (if p = ''CRITICAL'' then Some 0
      else if p = ''HIGH'' then Some 1
      else if p = ''MEDIUM'' then Some 2
      else if p = ''LOW'' then Some 3
      else None)"

text \<open>\<^verbatim>\<open>priority_order.get(x.get("priority", "LOW"), 3)\<close>, the sort key of every stage.\<close>

definition priority_rank :: "action \<Rightarrow> nat" where
  "priority_rank a =
     (case priority_order (case priority a of None \<Rightarrow> ''LOW'' | Some p \<Rightarrow> p) of
        None \<Rightarrow> 3
      | Some r \<Rightarrow> r)"

section \<open>Policy engine\<close>

definition with_air_filter :: "action \<Rightarrow> action" where
  "with_air_filter a =
     a\<lparr>action := Some ''ACTIVATE_COOLING_WITH_AIR_FILTER'',
       reason := Some (get_reason a @ '' (with air filtration)'')\<rparr>"

definition policies :: "policy list" where
  "policies =
   [ \<lparr>policy_id = ''energy_threshold'',
      rule = ''Don't raise coastal shields while energy load is below 80% capacity'',
      condition = (\<lambda>ctx a. action a = Some ''RAISE_COASTAL_BARRIERS'' \<and> load_ratio ctx < 8 / 10),
      effect = BLOCK,
      modification = None,
      policy_reason = Some ''Energy capacity sufficient, barriers not needed''\<rparr>,
     \<lparr>policy_id = ''cooling_during_peak'',
      rule = ''Don't trigger cooling nodes during peak energy load (>90%)'',
      condition = (\<lambda>ctx a. str_in ''COOLING'' (get_action a) \<and> load_ratio ctx > 9 / 10),
      effect = DEFER,
      modification = None,
      policy_reason = Some ''Peak energy load - defer cooling to avoid grid overload''\<rparr>,
     \<lparr>policy_id = ''conflicting_barriers'',
      rule = ''Don't raise and lower barriers simultaneously'',
      condition = (\<lambda>ctx a. action a = Some ''LOWER_COASTAL_BARRIERS'' \<and>
                    list_ex (\<lambda>p. action p = Some ''RAISE_COASTAL_BARRIERS'') (get_pending ctx)),
      effect = BLOCK,
      modification = None,
      policy_reason = Some ''Conflicting barrier actions detected''\<rparr>,
     \<lparr>policy_id = ''emergency_override'',
      rule = ''Allow critical actions even during high energy load if risk is critical'',
      condition = (\<lambda>ctx a. priority a = Some ''CRITICAL'' \<and> load_ratio ctx > 9 / 10),
      effect = ALLOW,
      modification = None,
      policy_reason = Some ''Critical risk overrides energy constraints''\<rparr>,
     \<lparr>policy_id = ''aqi_cooling_conflict'',
      rule = ''Don't activate cooling if AQI is critical (cooling may worsen air quality)'',
      condition = (\<lambda>ctx a. str_in ''COOLING'' (get_action a) \<and> get_aqi 0 ctx > 200),
      effect = MODIFY,
      modification = Some with_air_filter,
      policy_reason = Some ''Cooling activated with air filtration due to high AQI''\<rparr> ]"

definition safety_checks :: "safety_check list" where
  "safety_checks =
   [ \<lparr>check_id = ''energy_capacity'',
      check = (\<lambda>ctx. energy_load_or 0 ctx < 6000),
      message = ''Energy capacity check passed''\<rparr>,
     \<lparr>check_id = ''system_health'',
      check = (\<lambda>ctx. (case system_health ctx of None \<Rightarrow> ''operational'' | Some h \<Rightarrow> h)
                      = ''operational''),
      message = ''System health check passed''\<rparr>,
     \<lparr>check_id = ''sensor_connectivity'',
      check = (\<lambda>ctx. (case sensor_connectivity ctx of None \<Rightarrow> 95 / 100 | Some s \<Rightarrow> s)
                      > 8 / 10),
      message = ''Sensor connectivity check passed''\<rparr> ]"

text \<open>
  The policy loop of \<^verbatim>\<open>validate_action\<close>. It threads the (possibly rewritten) action and
  the two lists it appends to; \<open>Inl\<close> is the early return of a DEFER policy. A matching
  ALLOW policy takes none of the three branches of the source, so the loop just moves on.
\<close>

fun policy_loop ::
  "policy list \<Rightarrow> ctxt \<Rightarrow> action \<Rightarrow> violation list \<Rightarrow> modification_note list
     \<Rightarrow> string + (action \<times> violation list \<times> modification_note list)" where
  "policy_loop [] ctx a vs ms = Inr (a, vs, ms)"
| "policy_loop (p # ps) ctx a vs ms =
     (if condition p ctx a then
        (case effect p of
           BLOCK \<Rightarrow>
             policy_loop ps ctx a
               (vs @ [\<lparr>v_policy_id = policy_id p, v_rule = rule p,
                       v_reason = (case policy_reason p of None \<Rightarrow> ''Policy violation''
                                   | Some r \<Rightarrow> r)\<rparr>]) ms
         | DEFER \<Rightarrow>
             Inl (case policy_reason p of None \<Rightarrow> ''Action deferred by policy'' | Some r \<Rightarrow> r)
         | MODIFY \<Rightarrow>
             (case modification p of
                Some f \<Rightarrow>
                  policy_loop ps ctx (f a) vs
                    (ms @ [\<lparr>m_policy_id = policy_id p,
                            m_modification = (case policy_reason p of
                                                None \<Rightarrow> ''Action modified by policy''
                                              | Some r \<Rightarrow> r)\<rparr>])
              | None \<Rightarrow> policy_loop ps ctx a vs ms)
         | ALLOW \<Rightarrow> policy_loop ps ctx a vs ms)
      else policy_loop ps ctx a vs ms)"

definition run_safety_check :: "ctxt \<Rightarrow> safety_check \<Rightarrow> safety_result" where
  "run_safety_check ctx c =
     (if \<not> check c ctx then
        \<lparr>r_check_id = check_id c, passed = False,
         r_message = ''Safety check failed: '' @ check_id c\<rparr>
      else \<lparr>r_check_id = check_id c, passed = True, r_message = message c\<rparr>)"

definition validate_action_with ::
  "policy list \<Rightarrow> safety_check list \<Rightarrow> action \<Rightarrow> ctxt \<Rightarrow> validation" where
  "validate_action_with pols checks a ctx =
     (case policy_loop pols ctx a [] [] of
        Inl r \<Rightarrow> Deferred r
      | Inr (a', vs, ms) \<Rightarrow>
          (let safety_results = map (run_safety_check ctx) checks;
               all_safe = list_all passed safety_results
           in Verdict (length vs = 0 \<and> all_safe) vs ms safety_results a'))"

definition validate_action :: "action \<Rightarrow> ctxt \<Rightarrow> validation" where
  "validate_action a ctx = validate_action_with policies safety_checks a ctx"

section \<open>Conflict resolver\<close>

subsection \<open>Capacity stage\<close>

text \<open>
  The loop of \<^verbatim>\<open>_resolve_energy_conflict\<close> over the sorted actions, with the running
  total \<open>cum\<close>. Only the CRITICAL branch breaks; an overflowing action of another
  priority is skipped and the loop goes on to the next one.
\<close>

fun energy_loop :: "int \<Rightarrow> int \<Rightarrow> action list \<Rightarrow> action list" where
  "energy_loop available cum [] = []"
| "energy_loop available cum (a # as) =
     (let impact = get_impact a in
      if cum + impact \<le> available then a # energy_loop available (cum + impact) as
      else if priority a = Some ''CRITICAL'' then
        [a\<lparr>energy_impact_mw := Some (available - cum), scope_reduced := Some True\<rparr>]
      else energy_loop available cum as)"

definition resolve_energy_conflict :: "action list \<Rightarrow> ctxt \<Rightarrow> action list" where
  "resolve_energy_conflict actions ctx =
     (let current_load = energy_load_or 4500 ctx;
          max_capacity = 6000;
          available = max_capacity - current_load;
          total_impact = sum_list (map get_impact actions)
      in if total_impact \<le> available then actions
         else energy_loop available 0 (sort_key priority_rank actions))"

subsection \<open>Zone stage\<close>

text \<open>
  \<^verbatim>\<open>zone_actions\<close> is a dict from zone key to the list of its actions; Python dicts keep
  insertion order, so it is an association list that a new key extends at the end.
\<close>

fun zone_insert :: "string \<Rightarrow> action \<Rightarrow> (string \<times> action list) list \<Rightarrow> (string \<times> action list) list" where
  "zone_insert z a [] = [(z, [a])]"
| "zone_insert z a ((k, g) # rest) =
     (if k = z then (k, g @ [a]) # rest else (k, g) # zone_insert z a rest)"

fun zone_groups :: "action list \<Rightarrow> (string \<times> action list) list \<Rightarrow> (string \<times> action list) list" where
  "zone_groups [] d = d"
| "zone_groups (a # as) d = zone_groups as (zone_insert (get_zones a) a d)"

definition zone_pick :: "action list \<Rightarrow> action" where
  "zone_pick g = (if length g = 1 then g ! 0 else hd (sort_key priority_rank g))"

definition resolve_zone_conflict :: "action list \<Rightarrow> ctxt \<Rightarrow> action list" where
  "resolve_zone_conflict actions ctx = map (\<lambda>(z, g). zone_pick g) (zone_groups actions [])"

subsection \<open>Action-pair stage\<close>

definition conflicts :: "(string \<times> string) list" where
  "conflicts = [(''RAISE_COASTAL_BARRIERS'', ''LOWER_COASTAL_BARRIERS''),
                (''ACTIVATE_COOLING'', ''DEACTIVATE_COOLING'')]"

definition in_pair :: "string option \<Rightarrow> string \<times> string \<Rightarrow> bool" where
  "in_pair n p = (case n of None \<Rightarrow> False | Some s \<Rightarrow> s = fst p \<or> s = snd p)"

text \<open>
  \<^verbatim>\<open>conflicts\<close> is a set literal of two tuples, iterated in an order the language does not
  fix; the list keeps the written order. No name belongs to both pairs, and the lemma on
  the stage below holds for every list of pairs.

  The inner loop over the conflict pairs for one action. \<open>Some key\<close> is the branch that
  appends the action, adds \<open>key\<close> to \<^verbatim>\<open>seen_conflicts\<close>, sets \<^verbatim>\<open>conflict_found\<close> and
  breaks; \<open>None\<close> is the loop running to its end with \<^verbatim>\<open>conflict_found\<close> still false.
\<close>

fun pair_loop ::
  "(string \<times> string) list \<Rightarrow> action list \<Rightarrow> action \<Rightarrow> string list set \<Rightarrow> string list option" where
  "pair_loop [] actions a seen = None"
| "pair_loop (p # ps) actions a seen =
     (let action_name = get_action a in
      if in_pair (Some action_name) p then
        (case filter (\<lambda>b. in_pair (action b) p \<and> action b \<noteq> Some action_name) actions of
           [] \<Rightarrow> pair_loop ps actions a seen
         | other # _ \<Rightarrow>
             (let conflict_key = sort [action_name, get_action other] in
              if conflict_key \<notin> seen then
                (if priority_rank a \<le> priority_rank other then Some conflict_key
                 else pair_loop ps actions a seen)
              else pair_loop ps actions a seen))
      else pair_loop ps actions a seen)"

fun action_loop ::
  "(string \<times> string) list \<Rightarrow> action list \<Rightarrow> action list \<Rightarrow> action list \<Rightarrow> string list set
     \<Rightarrow> action list" where
  "action_loop ps actions [] resolved seen = resolved"
| "action_loop ps actions (a # as) resolved seen =
     (case pair_loop ps actions a seen of
        Some key \<Rightarrow> action_loop ps actions as (resolved @ [a]) (insert key seen)
      | None \<Rightarrow> action_loop ps actions as (resolved @ [a]) seen)"

definition resolve_action_conflict :: "action list \<Rightarrow> ctxt \<Rightarrow> action list" where
  "resolve_action_conflict actions ctx = action_loop conflicts actions actions [] {}"

subsection \<open>The pipeline\<close>

definition conflict_rules :: "(action list \<Rightarrow> ctxt \<Rightarrow> action list) list" where
  "conflict_rules = [resolve_energy_conflict, resolve_zone_conflict, resolve_action_conflict]"

fun validated_actions :: "action list \<Rightarrow> ctxt \<Rightarrow> action list" where
  "validated_actions [] ctx = []"
| "validated_actions (a # as) ctx =
     (case validate_action a ctx of
        Verdict True vs ms rs a' \<Rightarrow> a' # validated_actions as ctx
      | _ \<Rightarrow> validated_actions as ctx)"

definition resolve_conflicts :: "action list \<Rightarrow> ctxt \<Rightarrow> action list" where
  "resolve_conflicts actions ctx =
     foldl (\<lambda>resolved r. r resolved ctx) (validated_actions actions ctx) conflict_rules"

section \<open>Agents\<close>

text \<open>
  The base class raises in \<^verbatim>\<open>analyze\<close>; the four agents override it. An analysis keeps
  the keys the coordinator reads. The reason texts interpolate numbers with Python's
  formatting, which the two functions of \<open>formats\<close> stand for: \<open>fmt_value\<close> for
  \<^verbatim>\<open>{x}\<close> and \<open>fmt_1f\<close> for \<^verbatim>\<open>{x:.1f}\<close>.
\<close>

datatype py_error = NotImplementedError

record analysis =
  agent :: string
  risk_level :: string
  recommended_actions :: "action list option"

record agent_obj =
  name :: string
  agent_priority :: int
  status :: string
  analyze :: "ctxt \<Rightarrow> py_error + analysis"

record formats =
  fmt_value :: "rat \<Rightarrow> string"
  fmt_1f :: "rat \<Rightarrow> string"

definition base_agent :: "string \<Rightarrow> int \<Rightarrow> agent_obj" where
  "base_agent n p =
     \<lparr>name = n, agent_priority = p, status = ''active'', analyze = (\<lambda>ctx. Inl NotImplementedError)\<rparr>"

definition forecast_maximum :: "ctxt \<Rightarrow> rat option" where
  "forecast_maximum ctx =
     (case temp_forecast ctx of
        None \<Rightarrow> None
      | Some m \<Rightarrow> Some (case m of None \<Rightarrow> 0 | Some x \<Rightarrow> x))"

definition forecast_above :: "ctxt \<Rightarrow> rat \<Rightarrow> bool" where
  "forecast_above ctx t = (case forecast_maximum ctx of None \<Rightarrow> False | Some m \<Rightarrow> m > t)"

definition heat_risk_level :: "ctxt \<Rightarrow> string" where
  "heat_risk_level ctx =
     (let temp = (case temperature ctx of None \<Rightarrow> 30 | Some t \<Rightarrow> t) in
      if temp > 38 \<or> forecast_above ctx 38 then ''Critical''
      else if temp > 35 \<or> forecast_above ctx 35 then ''High''
      else if temp > 32 then ''Medium''
      else ''Low'')"

definition heat_get_actions :: "formats \<Rightarrow> string \<Rightarrow> rat \<Rightarrow> action list" where
  "heat_get_actions f risk temp =
     (if risk = ''Critical'' then
        [\<lparr>action = Some ''ACTIVATE_ALL_COOLING'', priority = Some ''CRITICAL'',
          zones = Some ''All hotspot zones'', energy_impact_mw = Some 300,
          reason = Some (''Temperature '' @ fmt_value f temp @ [CHR 0xB0]
                         @ ''C exceeds critical threshold''),
          scope_reduced = None\<rparr>]
      else if risk = ''High'' then
        [\<lparr>action = Some ''ACTIVATE_PRIORITY_COOLING'', priority = Some ''HIGH'',
          zones = Some ''High-priority zones'', energy_impact_mw = Some 150,
          reason = Some (''Temperature '' @ fmt_value f temp @ [CHR 0xB0]
                         @ ''C approaching critical''),
          scope_reduced = None\<rparr>]
      else [])"

definition heat_analyze :: "formats \<Rightarrow> ctxt \<Rightarrow> py_error + analysis" where
  "heat_analyze f ctx =
     (let temp = (case temperature ctx of None \<Rightarrow> 30 | Some t \<Rightarrow> t);
          risk = heat_risk_level ctx
      in Inr \<lparr>agent = ''Heat Agent'', risk_level = risk,
              recommended_actions = Some (heat_get_actions f risk temp)\<rparr>)"

definition flood_get_actions :: "string \<Rightarrow> action list" where
  "flood_get_actions risk =
     (if risk = ''High'' then
        [\<lparr>action = Some ''RAISE_COASTAL_BARRIERS'', priority = Some ''CRITICAL'',
          zones = Some ''Coastal zones'', energy_impact_mw = Some 200,
          reason = Some ''High flood risk detected'', scope_reduced = None\<rparr>]
      else if risk = ''Medium'' then
        [\<lparr>action = Some ''PREPARE_BARRIERS'', priority = Some ''MEDIUM'',
          zones = Some ''Coastal zones'', energy_impact_mw = Some 0,
          reason = Some ''Medium flood risk - prepare for activation'', scope_reduced = None\<rparr>]
      else [])"

definition flood_analyze :: "ctxt \<Rightarrow> py_error + analysis" where
  "flood_analyze ctx =
     (let risk0 = (case flood_risk ctx of None \<Rightarrow> ''Low'' | Some r \<Rightarrow> r);
          risk = (if flood_forecast ctx = Some ''High'' then ''High'' else risk0)
      in Inr \<lparr>agent = ''Flood Agent'', risk_level = risk,
              recommended_actions = Some (flood_get_actions risk)\<rparr>)"

definition aqi_get_actions :: "formats \<Rightarrow> string \<Rightarrow> int \<Rightarrow> action list" where
  "aqi_get_actions f risk q =
     (if risk = ''Critical'' then
        [\<lparr>action = Some ''ACTIVATE_ALL_AIR_PURIFIERS'', priority = Some ''CRITICAL'',
          zones = Some ''All zones'', energy_impact_mw = Some 250,
          reason = Some (''AQI '' @ fmt_value f (of_int q) @ '' exceeds critical threshold''),
          scope_reduced = None\<rparr>]
      else if risk = ''High'' then
        [\<lparr>action = Some ''ACTIVATE_PRIORITY_PURIFIERS'', priority = Some ''HIGH'',
          zones = Some ''High-traffic zones'', energy_impact_mw = Some 150,
          reason = Some (''AQI '' @ fmt_value f (of_int q) @ '' is unhealthy''),
          scope_reduced = None\<rparr>]
      else [])"

definition aqi_analyze :: "formats \<Rightarrow> ctxt \<Rightarrow> py_error + analysis" where
  "aqi_analyze f ctx =
     (let q = get_aqi 80 ctx;
          risk = (if q > 200 then ''Critical'' else if q > 150 then ''High''
                  else if q > 100 then ''Medium'' else ''Low'')
      in Inr \<lparr>agent = ''AQI Agent'', risk_level = risk,
              recommended_actions = Some (aqi_get_actions f risk q)\<rparr>)"

definition energy_get_actions :: "formats \<Rightarrow> string \<Rightarrow> rat \<Rightarrow> action list" where
  "energy_get_actions f risk utilization =
     (if risk = ''Critical'' then
        [\<lparr>action = Some ''REDUCE_NON_CRITICAL_LOAD'', priority = Some ''CRITICAL'',
          zones = Some ''All zones'', energy_impact_mw = Some (- 200),
          reason = Some (''Grid utilization '' @ fmt_1f f (utilization * 100) @ ''% - critical''),
          scope_reduced = None\<rparr>]
      else if risk = ''High'' then
        [\<lparr>action = Some ''OPTIMIZE_ENERGY_USAGE'', priority = Some ''MEDIUM'',
          zones = Some ''All zones'', energy_impact_mw = Some (- 100),
          reason = Some (''Grid utilization '' @ fmt_1f f (utilization * 100) @ ''% - high''),
          scope_reduced = None\<rparr>]
      else [])"

definition energy_analyze :: "formats \<Rightarrow> ctxt \<Rightarrow> py_error + analysis" where
  "energy_analyze f ctx =
     (let current_load = energy_load_or 4500 ctx;
          utilization = of_int current_load / 6000;
          risk = (if utilization > 95 / 100 then ''Critical''
                  else if utilization > 85 / 100 then ''High''
                  else if utilization > 75 / 100 then ''Medium'' else ''Low'')
      in Inr \<lparr>agent = ''Energy Agent'', risk_level = risk,
              recommended_actions = Some (energy_get_actions f risk utilization)\<rparr>)"

definition HeatAgent :: "formats \<Rightarrow> agent_obj" where
  "HeatAgent f = \<lparr>name = ''Heat Agent'', agent_priority = 1, status = ''active'',
                  analyze = heat_analyze f\<rparr>"

definition FloodAgent :: "agent_obj" where
  "FloodAgent = \<lparr>name = ''Flood Agent'', agent_priority = 2, status = ''active'',
                 analyze = flood_analyze\<rparr>"

definition AQIAgent :: "formats \<Rightarrow> agent_obj" where
  "AQIAgent f = \<lparr>name = ''AQI Agent'', agent_priority = 3, status = ''active'',
                 analyze = aqi_analyze f\<rparr>"

definition EnergyAgent :: "formats \<Rightarrow> agent_obj" where
  "EnergyAgent f = \<lparr>name = ''Energy Agent'', agent_priority = 4, status = ''active'',
                    analyze = energy_analyze f\<rparr>"

section \<open>Coordinator\<close>

record agent_summary =
  s_name :: string
  s_priority :: int
  s_status :: string
  s_analysis :: "analysis option"

record coordination_summary =
  active_agents :: nat
  total_recommendations :: nat
  critical_actions :: nat
  high_priority_actions :: nat

record orchestration_result =
  city :: string
  timestamp :: string
  orchestration_status :: string
  agents :: "agent_summary list"
  conflicts_detected :: int
  resolved_actions :: "action list"
  total_energy_impact_mw :: int
  summary :: coordination_summary

text \<open>
  The agent loop of \<^verbatim>\<open>orchestrate\<close>. The call of \<^verbatim>\<open>agent.analyze\<close> stands in no
  \<^verbatim>\<open>try\<close> block, so an exception leaves the loop and the function: \<open>Inl\<close>.
\<close>

fun run_agents :: "agent_obj list \<Rightarrow> ctxt \<Rightarrow> py_error + (analysis list \<times> action list)" where
  "run_agents [] ctx = Inr ([], [])"
| "run_agents (a # as) ctx =
     (case analyze a ctx of
        Inl e \<Rightarrow> Inl e
      | Inr an \<Rightarrow>
          (case run_agents as ctx of
             Inl e \<Rightarrow> Inl e
           | Inr (ans, acts) \<Rightarrow>
               Inr (an # ans,
                    (case recommended_actions an of None \<Rightarrow> [] | Some r \<Rightarrow> r) @ acts)))"

fun dedupe :: "action list \<Rightarrow> string set \<Rightarrow> action list" where
  "dedupe [] seen = []"
| "dedupe (a # as) seen =
     (let action_key = (case action a of None \<Rightarrow> ''None'' | Some n \<Rightarrow> n) @ ''_''
                       @ (case zones a of None \<Rightarrow> ''None'' | Some z \<Rightarrow> z)
      in if action_key \<notin> seen then a # dedupe as (insert action_key seen)
         else dedupe as seen)"

definition simple_resolve :: "action list \<Rightarrow> ctxt \<Rightarrow> action list" where
  "simple_resolve actions ctx = dedupe (sort_key priority_rank actions) {}"

text \<open>
  \<^verbatim>\<open>orchestrate\<close> from the point where the context dict has been assembled; the calls that
  assemble it (command hub, forecasts, anomaly detection) supply \<open>ctx\<close>, the clock read by
  \<^verbatim>\<open>datetime.now()\<close> supplies \<open>now\<close>, \<^verbatim>\<open>self.agents\<close> is \<open>ags\<close>, and \<open>policy_engine\<close> says
  whether an engine was passed. The assembling calls and dict lookups stand in no
  \<^verbatim>\<open>try\<close> block either: an exception of theirs leaves the function before the agent loop
  starts. That part of the run is not in this definition, so \<open>Inr\<close> here says that a run
  which reached the agent loop with the context \<open>ctx\<close> returns, never that a call of
  \<^verbatim>\<open>orchestrate\<close> gets that far.
\<close>

definition orchestrate ::
  "string \<Rightarrow> string \<Rightarrow> agent_obj list \<Rightarrow> bool \<Rightarrow> ctxt \<Rightarrow> py_error + orchestration_result" where
  "orchestrate cty now ags policy_engine ctx =
     (case run_agents (sort_key agent_priority ags) ctx of
        Inl e \<Rightarrow> Inl e
      | Inr (agent_analyses, all_actions) \<Rightarrow>
          (let resolved = (if policy_engine then resolve_conflicts all_actions ctx
                           else simple_resolve all_actions ctx)
           in Inr \<lparr>city = cty,
                   timestamp = now,
                   orchestration_status = ''active'',
                   agents = map (\<lambda>a. \<lparr>s_name = name a, s_priority = agent_priority a,
                                        s_status = status a,
                                        s_analysis = find (\<lambda>ag. agent ag = name a) agent_analyses\<rparr>)
                              ags,
                   conflicts_detected = int (length all_actions) - int (length resolved),
                   resolved_actions = resolved,
                   total_energy_impact_mw = sum_list (map get_impact resolved),
                   summary =
                     \<lparr>active_agents = length (filter (\<lambda>a. status a = ''active'') ags),
                      total_recommendations = length resolved,
                      critical_actions =
                        length (filter (\<lambda>a. priority a = Some ''CRITICAL'') resolved),
                      high_priority_actions =
                        length (filter (\<lambda>a. priority a = Some ''HIGH'') resolved)\<rparr>\<rparr>))"

section \<open>Notions used in the statements\<close>

text \<open>What the policy list decides for one action, read off the list itself.\<close>

definition all_safe :: "ctxt \<Rightarrow> bool" where
  "all_safe ctx = list_all (\<lambda>c. check c ctx) safety_checks"

definition blocked :: "ctxt \<Rightarrow> action \<Rightarrow> bool" where
  "blocked ctx a = list_ex (\<lambda>p. effect p = BLOCK \<and> condition p ctx a) policies"

definition deferred :: "ctxt \<Rightarrow> action \<Rightarrow> bool" where
  "deferred ctx a = list_ex (\<lambda>p. effect p = DEFER \<and> condition p ctx a) policies"

definition rewritten :: "ctxt \<Rightarrow> action \<Rightarrow> bool" where
  "rewritten ctx a = list_ex (\<lambda>p. effect p = MODIFY \<and> condition p ctx a) policies"

text \<open>
  How an output action may differ from the candidate it comes from: after validation
  (\<open>rewrite_rel\<close>), after the capacity stage (\<open>clip_rel\<close>), and after the whole of
  \<^verbatim>\<open>resolve_conflicts\<close> (\<open>derived\<close>): priority and zones are the candidate's; name and
  reason are the candidate's or those the MODIFY policy writes; impact and
  \<^verbatim>\<open>scope_reduced\<close> are the candidate's or, for a CRITICAL candidate, a lower impact with
  \<^verbatim>\<open>scope_reduced\<close> set.
\<close>

definition rewrite_rel :: "ctxt \<Rightarrow> action \<Rightarrow> action \<Rightarrow> bool" where
  "rewrite_rel ctx a b = (b = (if rewritten ctx a then with_air_filter a else a))"

definition clip_rel :: "action \<Rightarrow> action \<Rightarrow> bool" where
  "clip_rel a b = (b = a \<or>
     (priority a = Some ''CRITICAL'' \<and>
      (\<exists>i. i < get_impact a \<and> b = a\<lparr>energy_impact_mw := Some i, scope_reduced := Some True\<rparr>)))"

definition derived :: "ctxt \<Rightarrow> action \<Rightarrow> action \<Rightarrow> bool" where
  "derived ctx a b =
     (priority b = priority a \<and> zones b = zones a \<and>
      ((action b = action a \<and> reason b = reason a) \<or>
       (rewritten ctx a \<and> action b = Some ''ACTIVATE_COOLING_WITH_AIR_FILTER'' \<and>
        reason b = Some (get_reason a @ '' (with air filtration)''))) \<and>
      ((energy_impact_mw b = energy_impact_mw a \<and> scope_reduced b = scope_reduced a) \<or>
       (priority a = Some ''CRITICAL'' \<and> get_impact b < get_impact a \<and>
        scope_reduced b = Some True)))"

text \<open>The invariant of the zone dict: keys are distinct, no group is empty, and a group
  holds actions of its own zone key only.\<close>

definition zone_inv :: "(string \<times> action list) list \<Rightarrow> bool" where
  "zone_inv d = (distinct (map fst d) \<and> (\<forall>(k, g) \<in> set d. g \<noteq> [] \<and> (\<forall>a \<in> set g. get_zones a = k)))"

text \<open>\<open>all_fit available cum pre\<close>: the capacity loop, entered with running total \<open>cum\<close>,
  accepts every action of \<open>pre\<close> (the test of its first branch holds each time).\<close>

fun all_fit :: "int \<Rightarrow> int \<Rightarrow> action list \<Rightarrow> bool" where
  "all_fit available cum [] = True"
| "all_fit available cum (a # as) =
     (cum + get_impact a \<le> available \<and> all_fit available (cum + get_impact a) as)"


text \<open>Concrete inputs: a context that sets the energy load and the AQI and leaves every
  other key absent, and an action with the five keys the agents emit.\<close>

definition ctx_of :: "int \<Rightarrow> int \<Rightarrow> ctxt" where
  "ctx_of load q =
     \<lparr>temperature = None, flood_risk = None, aqi = Some q, energy_load = Some load,
      temp_forecast = None, flood_forecast = None, system_health = None,
      sensor_connectivity = None, pending_actions = None\<rparr>"

definition act :: "string \<Rightarrow> string \<Rightarrow> string \<Rightarrow> int \<Rightarrow> action" where
  "act n p z i =
     \<lparr>action = Some n, priority = Some p, zones = Some z, energy_impact_mw = Some i,
      reason = Some ''r'', scope_reduced = None\<rparr>"

text \<open>A stand-in for Python's number formatting in concrete runs; no risk level and no
  decision of the engine reads the reason texts it fills in.\<close>

definition plain_formats :: formats where
  "plain_formats = \<lparr>fmt_value = (\<lambda>x. ''?''), fmt_1f = (\<lambda>x. ''?'')\<rparr>"

section \<open>Lemmas\<close>

lemma action_loop_appends:
  "action_loop ps actions as resolved seen = resolved @ as"
  by (induction as arbitrary: resolved seen) (auto split: option.splits)

lemma resolve_action_conflict_id: "resolve_action_conflict actions ctx = actions"
  by (simp add: resolve_action_conflict_def action_loop_appends)

lemma energy_loop_within:
  "cum \<le> available \<Longrightarrow> cum + sum_list (map get_impact (energy_loop available cum xs)) \<le> available"
proof (induction xs arbitrary: cum)
  case Nil
  then show ?case by simp
next
  case (Cons a xs)
  show ?case
  proof (cases "cum + get_impact a \<le> available")
    case True
    from Cons.IH [OF True] True show ?thesis by (simp add: Let_def add.assoc)
  next
    case False
    with Cons show ?thesis by (simp add: Let_def get_impact_def)
  qed
qed

lemma energy_loop_bound:
  "energy_loop available cum xs = [] \<or>
   cum + sum_list (map get_impact (energy_loop available cum xs)) \<le> available"
proof (induction xs)
  case Nil
  then show ?case by simp
next
  case (Cons a xs)
  show ?case
  proof (cases "cum + get_impact a \<le> available")
    case True
    from energy_loop_within [OF True, of xs] True show ?thesis by (simp add: Let_def add.assoc)
  next
    case False
    with Cons show ?thesis by (simp add: Let_def get_impact_def)
  qed
qed

lemma energy_loop_source:
  "\<exists>src. subseq src xs \<and> list_all2 clip_rel src (energy_loop available cum xs)"
proof (induction xs arbitrary: cum)
  case Nil
  then show ?case by simp
next
  case (Cons a xs)
  consider (fit) "cum + get_impact a \<le> available"
    | (cut) "\<not> cum + get_impact a \<le> available" "priority a = Some ''CRITICAL''"
    | (skip) "\<not> cum + get_impact a \<le> available" "priority a \<noteq> Some ''CRITICAL''"
    by blast
  then show ?case
  proof cases
    case fit
    from Cons.IH [of "cum + get_impact a"] obtain src where
      s: "subseq src xs" "list_all2 clip_rel src (energy_loop available (cum + get_impact a) xs)"
      by blast
    have "subseq (a # src) (a # xs)" using s(1) by simp
    moreover have "list_all2 clip_rel (a # src) (energy_loop available cum (a # xs))"
      using s(2) fit by (simp add: Let_def clip_rel_def)
    ultimately show ?thesis by blast
  next
    case cut
    have "subseq [a] (a # xs)" by simp
    moreover have "available - cum < get_impact a" using cut(1) by linarith
    then have "clip_rel a (a\<lparr>energy_impact_mw := Some (available - cum), scope_reduced := Some True\<rparr>)"
      unfolding clip_rel_def using cut(2) by blast
    then have "list_all2 clip_rel [a] (energy_loop available cum (a # xs))"
      using cut by (simp add: Let_def)
    ultimately show ?thesis by blast
  next
    case skip
    from Cons.IH [of cum] obtain src where
      s: "subseq src xs" "list_all2 clip_rel src (energy_loop available cum xs)"
      by blast
    have "subseq src (a # xs)" using s(1) by (rule list_emb_Cons)
    moreover have "list_all2 clip_rel src (energy_loop available cum (a # xs))"
      using s(2) skip by (simp add: Let_def)
    ultimately show ?thesis by blast
  qed
qed

lemma zone_insert_keys:
  "map fst (zone_insert z a d) = (if z \<in> set (map fst d) then map fst d else map fst d @ [z])"
  by (induction d) force+

lemma zone_insert_set:
  "(k, g) \<in> set (zone_insert z a d) \<Longrightarrow>
     (k, g) \<in> set d \<or> (k = z \<and> (g = [a] \<or> (\<exists>g'. (k, g') \<in> set d \<and> g = g' @ [a])))"
  by (induction d) (auto split: if_splits)

lemma zone_insert_inv:
  assumes "zone_inv d" "get_zones a = z"
  shows "zone_inv (zone_insert z a d)"
proof -
  have "distinct (map fst (zone_insert z a d))"
    using assms(1) by (simp add: zone_insert_keys zone_inv_def)
  moreover have "g \<noteq> [] \<and> (\<forall>b \<in> set g. get_zones b = k)" if "(k, g) \<in> set (zone_insert z a d)" for k g
    using zone_insert_set [OF that] assms by (fastforce simp: zone_inv_def)
  ultimately show ?thesis unfolding zone_inv_def by blast
qed

lemma zone_insert_mset:
  "mset (concat (map snd (zone_insert z a d))) = add_mset a (mset (concat (map snd d)))"
  by (induction d) auto

lemma zone_groups_inv: "zone_inv d \<Longrightarrow> zone_inv (zone_groups xs d)"
  by (induction xs arbitrary: d) (auto simp: zone_insert_inv)

lemma zone_groups_mset:
  "mset (concat (map snd (zone_groups xs d))) = mset xs + mset (concat (map snd d))"
  by (induction xs arbitrary: d) (auto simp: zone_insert_mset)

lemma zone_pick_in: "g \<noteq> [] \<Longrightarrow> zone_pick g \<in> set g"
proof -
  assume g: "g \<noteq> []"
  then have "sort_key priority_rank g \<noteq> []" by (metis length_sort length_0_conv)
  then have "hd (sort_key priority_rank g) \<in> set (sort_key priority_rank g)"
    by (rule hd_in_set)
  then have "hd (sort_key priority_rank g) \<in> set g" by (simp only: set_sort)
  moreover have "g ! 0 \<in> set g" using g by simp
  ultimately show ?thesis by (simp add: zone_pick_def)
qed

lemma zone_picks_mset:
  "(\<forall>(k, g) \<in> set d. g \<noteq> []) \<Longrightarrow>
     mset (map (\<lambda>(z, g). zone_pick g) d) \<subseteq># mset (concat (map snd d))"
proof (induction d)
  case Nil
  then show ?case by simp
next
  case (Cons p d)
  obtain k g where p: "p = (k, g)" by (cases p)
  with Cons.prems have "g \<noteq> []" by simp
  then have "{#zone_pick g#} \<subseteq># mset g" by (simp add: zone_pick_in)
  moreover have "mset (map (\<lambda>(z, g). zone_pick g) d) \<subseteq># mset (concat (map snd d))"
    using Cons by simp
  ultimately have "{#zone_pick g#} + mset (map (\<lambda>(z, g). zone_pick g) d)
      \<subseteq># mset g + mset (concat (map snd d))"
    by (rule subset_mset.add_mono)
  then show ?case by (simp add: p)
qed

lemma zone_picks_keys:
  "zone_inv d \<Longrightarrow> map get_zones (map (\<lambda>(z, g). zone_pick g) d) = map fst d"
proof (induction d)
  case Nil
  then show ?case by simp
next
  case (Cons p d)
  obtain k g where p: "p = (k, g)" by (cases p)
  from Cons.prems have inv: "zone_inv d" and g: "g \<noteq> []" "\<forall>a \<in> set g. get_zones a = k"
    by (auto simp: zone_inv_def p)
  from zone_pick_in [OF g(1)] g(2) have "get_zones (zone_pick g) = k" by blast
  with Cons.IH [OF inv] show ?case by (simp add: p)
qed

lemma zone_inv_Nil: "zone_inv []"
  by (simp add: zone_inv_def)

lemma resolve_zone_mset: "mset (resolve_zone_conflict xs ctx) \<subseteq># mset xs"
proof -
  have inv: "zone_inv (zone_groups xs [])" by (rule zone_groups_inv [OF zone_inv_Nil])
  then have "\<forall>(k, g) \<in> set (zone_groups xs []). g \<noteq> []" by (auto simp: zone_inv_def)
  from zone_picks_mset [OF this] show ?thesis
    by (simp add: resolve_zone_conflict_def zone_groups_mset)
qed

lemma resolve_zone_distinct: "distinct (map get_zones (resolve_zone_conflict xs ctx))"
proof -
  have inv: "zone_inv (zone_groups xs [])" by (rule zone_groups_inv [OF zone_inv_Nil])
  have "map get_zones (resolve_zone_conflict xs ctx) = map fst (zone_groups xs [])"
    unfolding resolve_zone_conflict_def by (rule zone_picks_keys [OF inv])
  with inv show ?thesis by (simp add: zone_inv_def)
qed

lemma zone_insert_fresh: "z \<notin> fst ` set d \<Longrightarrow> zone_insert z a d = d @ [(z, [a])]"
  by (induction d) auto

lemma zone_groups_fresh:
  "distinct (map get_zones xs) \<Longrightarrow> set (map get_zones xs) \<inter> fst ` set d = {} \<Longrightarrow>
     zone_groups xs d = d @ map (\<lambda>a. (get_zones a, [a])) xs"
proof (induction xs arbitrary: d)
  case Nil
  then show ?case by simp
next
  case (Cons a xs)
  from Cons.prems have fresh: "get_zones a \<notin> fst ` set d" by auto
  have step: "zone_insert (get_zones a) a d = d @ [(get_zones a, [a])]"
    by (rule zone_insert_fresh [OF fresh])
  have "set (map get_zones xs) \<inter> fst ` set (d @ [(get_zones a, [a])]) = {}"
    using Cons.prems by auto
  with Cons.IH [of "d @ [(get_zones a, [a])]"] Cons.prems step show ?case by simp
qed

lemma resolve_zone_id:
  "distinct (map get_zones xs) \<Longrightarrow> resolve_zone_conflict xs ctx = xs"
proof -
  assume d: "distinct (map get_zones xs)"
  have "zone_groups xs [] = map (\<lambda>a. (get_zones a, [a])) xs"
    using zone_groups_fresh [OF d, of "[]"] by simp
  then show ?thesis
    by (simp add: resolve_zone_conflict_def zone_pick_def comp_def map_idI)
qed

lemma blocked_iff:
  "blocked ctx a \<longleftrightarrow>
     (action a = Some ''RAISE_COASTAL_BARRIERS'' \<and> load_ratio ctx < 8 / 10) \<or>
     (action a = Some ''LOWER_COASTAL_BARRIERS'' \<and>
        list_ex (\<lambda>p. action p = Some ''RAISE_COASTAL_BARRIERS'') (get_pending ctx))"
  by (simp add: blocked_def policies_def)

lemma deferred_iff:
  "deferred ctx a \<longleftrightarrow> str_in ''COOLING'' (get_action a) \<and> load_ratio ctx > 9 / 10"
  by (simp add: deferred_def policies_def)

lemma rewritten_iff:
  "rewritten ctx a \<longleftrightarrow> str_in ''COOLING'' (get_action a) \<and> get_aqi 0 ctx > 200"
  by (simp add: rewritten_def policies_def)

lemma safe_results: "list_all passed (map (run_safety_check ctx) checks) = list_all (\<lambda>c. check c ctx) checks"
  by (induction checks) (simp_all add: run_safety_check_def)

text \<open>The outcome of the policy loop, without the bookkeeping lists.\<close>

lemma policy_loop_outcome:
  assumes "effect p1 = BLOCK" "effect p2 = DEFER" "effect p3 = BLOCK" "effect p4 = ALLOW"
    "effect p5 = MODIFY" "modification p5 = Some f"
  shows "case policy_loop [p1, p2, p3, p4, p5] ctx a [] [] of
           Inl r \<Rightarrow> condition p2 ctx a
         | Inr (a', vs, ms) \<Rightarrow>
             \<not> condition p2 ctx a \<and>
             a' = (if condition p5 ctx a then f a else a) \<and>
             (vs = [] \<longleftrightarrow> \<not> condition p1 ctx a \<and> \<not> condition p3 ctx a)"
  using assms by simp

lemma policies_outcome:
  "case policy_loop policies ctx a [] [] of
     Inl r \<Rightarrow> deferred ctx a
   | Inr (a', vs, ms) \<Rightarrow>
       \<not> deferred ctx a \<and>
       a' = (if rewritten ctx a then with_air_filter a else a) \<and>
       (vs = [] \<longleftrightarrow> \<not> blocked ctx a)"
proof -
  obtain p1 p2 p3 p4 p5 where ps: "policies = [p1, p2, p3, p4, p5]"
    by (simp add: policies_def)
  then have eff: "effect p1 = BLOCK" "effect p2 = DEFER" "effect p3 = BLOCK" "effect p4 = ALLOW"
    "effect p5 = MODIFY" "modification p5 = Some with_air_filter"
    by (auto simp: policies_def)
  have "blocked ctx a = (condition p1 ctx a \<or> condition p3 ctx a)"
    "deferred ctx a = condition p2 ctx a" "rewritten ctx a = condition p5 ctx a"
    using eff by (simp_all add: blocked_def deferred_def rewritten_def ps)
  with policy_loop_outcome [OF eff, of ctx a] show ?thesis
    by (simp only: ps de_Morgan_disj)
qed

lemma valid_iff:
  "valid (validate_action a ctx) \<longleftrightarrow> \<not> blocked ctx a \<and> \<not> deferred ctx a \<and> all_safe ctx"
  using policies_outcome [of ctx a]
  by (auto simp: validate_action_def validate_action_with_def Let_def safe_results all_safe_def
      split: sum.splits)

lemma validated_action_eq:
  "validated_action (validate_action a ctx) =
     (if deferred ctx a then None else Some (if rewritten ctx a then with_air_filter a else a))"
  using policies_outcome [of ctx a]
  by (auto simp: validate_action_def validate_action_with_def Let_def split: sum.splits)

lemma validated_actions_Cons:
  "validated_actions (a # as) ctx =
     (if valid (validate_action a ctx)
      then (if rewritten ctx a then with_air_filter a else a) # validated_actions as ctx
      else validated_actions as ctx)"
proof (cases "validate_action a ctx")
  case (Deferred r)
  then show ?thesis by simp
next
  case (Verdict v vs ms rs a')
  with validated_action_eq [of a ctx] have "a' = (if rewritten ctx a then with_air_filter a else a)"
    by (simp split: if_splits)
  with Verdict show ?thesis by (cases v) simp_all
qed

lemma validated_actions_eq:
  "validated_actions as ctx =
     map (\<lambda>a. if rewritten ctx a then with_air_filter a else a)
       (filter (\<lambda>a. valid (validate_action a ctx)) as)"
  by (induction as) (simp_all only: validated_actions.simps(1) validated_actions_Cons list.map filter.simps if_distrib split: if_splits, auto)

lemma subseq_mset: "subseq xs ys \<Longrightarrow> mset xs \<subseteq># mset ys"
proof (induction rule: list_emb.induct)
  case (list_emb_Nil ys)
  show ?case by simp
next
  case (list_emb_Cons xs ys y)
  have "mset ys \<subseteq># mset (y # ys)" by simp
  with list_emb_Cons.IH show ?case by (rule subset_mset.order_trans)
next
  case (list_emb_Cons2 x y xs ys)
  then show ?case by simp
qed

lemma sub_lift:
  "list_all2 R xs ys \<Longrightarrow> mset ys' \<subseteq># mset ys \<Longrightarrow>
     \<exists>xs'. mset xs' \<subseteq># mset xs \<and> list_all2 R xs' ys'"
proof (induction ys' arbitrary: xs ys)
  case Nil
  have "mset [] \<subseteq># mset xs \<and> list_all2 R [] []" by simp
  then show ?case by blast
next
  case (Cons y t)
  from Cons.prems(2) have "y \<in># mset ys" by (simp add: insert_subset_eq_iff)
  then have "y \<in> set ys" by simp
  then obtain ys1 ys2 where ys: "ys = ys1 @ y # ys2" by (auto dest: split_list)
  with Cons.prems(1) obtain xs1 x xs2 where
    xs: "xs = xs1 @ x # xs2" and r1: "list_all2 R xs1 ys1" and rx: "R x y" and r2: "list_all2 R xs2 ys2"
    by (auto simp: list_all2_append2 list_all2_Cons2)
  have rest: "list_all2 R (xs1 @ xs2) (ys1 @ ys2)" using r1 r2 by (rule list_all2_appendI)
  have "mset t \<subseteq># mset (ys1 @ ys2)" using Cons.prems(2) by (simp add: ys insert_subset_eq_iff)
  from Cons.IH [OF rest this] obtain xs'' where
    x2: "mset xs'' \<subseteq># mset (xs1 @ xs2)" "list_all2 R xs'' t" by blast
  have "mset (x # xs'') \<subseteq># mset xs" using x2(1) by (simp add: xs)
  moreover have "list_all2 R (x # xs'') (y # t)" using rx x2(2) by simp
  ultimately show ?case by blast
qed

lemma resolve_energy_source:
  "\<exists>src. mset src \<subseteq># mset xs \<and> list_all2 clip_rel src (resolve_energy_conflict xs ctx)"
proof (cases "sum_list (map get_impact xs) \<le> 6000 - energy_load_or 4500 ctx")
  case True
  then have "resolve_energy_conflict xs ctx = xs" by (simp add: resolve_energy_conflict_def)
  moreover have "list_all2 clip_rel xs xs" by (simp add: list_all2_same clip_rel_def)
  ultimately have "mset xs \<subseteq># mset xs \<and> list_all2 clip_rel xs (resolve_energy_conflict xs ctx)"
    by simp
  then show ?thesis by blast
next
  case False
  then have out: "resolve_energy_conflict xs ctx =
      energy_loop (6000 - energy_load_or 4500 ctx) 0 (sort_key priority_rank xs)"
    by (simp add: resolve_energy_conflict_def)
  from energy_loop_source obtain src where
    s: "subseq src (sort_key priority_rank xs)"
       "list_all2 clip_rel src (energy_loop (6000 - energy_load_or 4500 ctx) 0 (sort_key priority_rank xs))"
    by blast
  from s(1) have "mset src \<subseteq># mset (sort_key priority_rank xs)" by (rule subseq_mset)
  then have "mset src \<subseteq># mset xs" by simp
  with s(2) out show ?thesis by auto
qed

lemma resolve_conflicts_eq:
  "resolve_conflicts xs ctx =
     resolve_zone_conflict (resolve_energy_conflict (validated_actions xs ctx) ctx) ctx"
  by (simp add: resolve_conflicts_def conflict_rules_def resolve_action_conflict_id)

lemma validated_source:
  "list_all2 (rewrite_rel ctx) (filter (\<lambda>a. valid (validate_action a ctx)) xs)
     (validated_actions xs ctx)"
  by (simp add: validated_actions_eq list_all2_map2 list_all2_same rewrite_rel_def)

lemma derived_compose: "rewrite_rel ctx a b \<Longrightarrow> clip_rel b c \<Longrightarrow> derived ctx a c"
  by (auto simp: rewrite_rel_def clip_rel_def derived_def with_air_filter_def get_impact_def
      split: if_splits)

lemma resolve_conflicts_source:
  "\<exists>src. mset src \<subseteq># mset (filter (\<lambda>a. valid (validate_action a ctx)) xs) \<and>
         list_all2 (derived ctx) src (resolve_conflicts xs ctx)"
proof -
  let ?V = "validated_actions xs ctx"
  let ?E = "resolve_energy_conflict ?V ctx"
  let ?Z = "resolve_zone_conflict ?E ctx"
  from resolve_energy_source obtain s2 where
    s2: "mset s2 \<subseteq># mset ?V" "list_all2 clip_rel s2 ?E" by blast
  have "mset ?Z \<subseteq># mset ?E" by (rule resolve_zone_mset)
  from sub_lift [OF s2(2) this] obtain s2' where
    s2': "mset s2' \<subseteq># mset s2" "list_all2 clip_rel s2' ?Z" by blast
  have "mset s2' \<subseteq># mset ?V" using s2'(1) s2(1) by (rule subset_mset.order_trans)
  from sub_lift [OF validated_source this] obtain s1 where
    s1: "mset s1 \<subseteq># mset (filter (\<lambda>a. valid (validate_action a ctx)) xs)"
        "list_all2 (rewrite_rel ctx) s1 s2'" by blast
  have "list_all2 (rewrite_rel ctx OO clip_rel) s1 ?Z"
    using s1(2) s2'(2) by (rule list_all2_trans [rotated 1]) (rule relcomppI)
  then have "list_all2 (derived ctx) s1 ?Z"
    by (rule list_all2_mono) (auto intro: derived_compose)
  with s1(1) show ?thesis unfolding resolve_conflicts_eq by blast
qed

lemma list_all2_sourceD:
  "list_all2 R xs ys \<Longrightarrow> y \<in> set ys \<Longrightarrow> \<exists>x \<in> set xs. R x y"
  by (induction rule: list_all2_induct) auto

lemma all_safe_iff:
  "all_safe ctx \<longleftrightarrow>
     energy_load_or 0 ctx < 6000 \<and>
     (case system_health ctx of None \<Rightarrow> ''operational'' | Some h \<Rightarrow> h) = ''operational'' \<and>
     (case sensor_connectivity ctx of None \<Rightarrow> 95 / 100 | Some s \<Rightarrow> s) > 8 / 10"
  by (simp add: all_safe_def safety_checks_def)

lemma safety_checks_of_eq:
  "safety_checks_of (validate_action a ctx) =
     (if deferred ctx a then None else Some (map (run_safety_check ctx) safety_checks))"
  using policies_outcome [of ctx a]
  by (auto simp: validate_action_def validate_action_with_def Let_def split: sum.splits)

lemma unsafe_validated: "\<not> all_safe ctx \<Longrightarrow> validated_actions xs ctx = []"
  by (simp add: validated_actions_eq valid_iff)

lemma resolve_energy_Nil: "resolve_energy_conflict [] ctx = []"
  by (simp add: resolve_energy_conflict_def Let_def)

lemma resolve_zone_Nil: "resolve_zone_conflict [] ctx = []"
  by (simp add: resolve_zone_conflict_def)

lemma unsafe_resolve: "\<not> all_safe ctx \<Longrightarrow> resolve_conflicts xs ctx = []"
  by (simp add: resolve_conflicts_eq unsafe_validated resolve_energy_Nil resolve_zone_Nil)

lemma cooling_in_filter_name: "str_in ''COOLING'' ''ACTIVATE_COOLING_WITH_AIR_FILTER''"
  by simp

lemma derived_valid:
  assumes d: "derived ctx a b" and v: "valid (validate_action a ctx)" and n: "\<not> rewritten ctx b"
  shows "valid (validate_action b ctx)"
proof -
  have same: "action b = action a"
  proof (rule ccontr)
    assume neq: "action b \<noteq> action a"
    with d have ra: "rewritten ctx a" and nb: "action b = Some ''ACTIVATE_COOLING_WITH_AIR_FILTER''"
      by (auto simp: derived_def)
    from nb have "get_action b = ''ACTIVATE_COOLING_WITH_AIR_FILTER''" by (simp add: get_action_def)
    with ra cooling_in_filter_name have "rewritten ctx b" by (simp only: rewritten_iff)
    with n show False by contradiction
  qed
  then have "get_action b = get_action a" by (simp add: get_action_def)
  with same v show ?thesis by (simp add: valid_iff blocked_iff deferred_iff)
qed

lemma validated_fixed:
  assumes "\<forall>b \<in> set xs. valid (validate_action b ctx) \<and> \<not> rewritten ctx b"
  shows "validated_actions xs ctx = xs"
proof -
  have "filter (\<lambda>a. valid (validate_action a ctx)) xs = xs" using assms by (simp add: filter_id_conv)
  moreover have "map (\<lambda>a. if rewritten ctx a then with_air_filter a else a) xs = xs"
    using assms by (simp add: map_idI)
  ultimately show ?thesis by (simp add: validated_actions_eq)
qed

lemma resolve_twice:
  assumes h1: "\<forall>b \<in> set (resolve_conflicts actions ctx). \<not> rewritten ctx b"
    and h2: "sum_list (map get_impact (resolve_conflicts actions ctx)) \<le> 6000 - energy_load_or 4500 ctx"
  shows "resolve_conflicts (resolve_conflicts actions ctx) ctx = resolve_conflicts actions ctx"
proof -
  let ?R = "resolve_conflicts actions ctx"
  from resolve_conflicts_source obtain src where
    src: "mset src \<subseteq># mset (filter (\<lambda>a. valid (validate_action a ctx)) actions)"
         "list_all2 (derived ctx) src ?R" by blast
  have ok: "valid (validate_action b ctx) \<and> \<not> rewritten ctx b" if b: "b \<in> set ?R" for b
  proof -
    from list_all2_sourceD [OF src(2) b] obtain a where a: "a \<in> set src" "derived ctx a b" by blast
    from a(1) src(1) have "a \<in> set (filter (\<lambda>a. valid (validate_action a ctx)) actions)"
      by (metis mset_subset_eqD set_mset_mset)
    then have "valid (validate_action a ctx)" by simp
    with a(2) h1 b show ?thesis by (simp add: derived_valid)
  qed
  then have v: "validated_actions ?R ctx = ?R" by (simp add: validated_fixed)
  have e: "resolve_energy_conflict ?R ctx = ?R" using h2 by (simp add: resolve_energy_conflict_def)
  have "distinct (map get_zones ?R)" unfolding resolve_conflicts_eq by (rule resolve_zone_distinct)
  then have z: "resolve_zone_conflict ?R ctx = ?R" by (rule resolve_zone_id)
  show ?thesis by (subst resolve_conflicts_eq) (simp only: v e z)
qed

lemma rank_zero_iff: "priority_rank a = 0 \<longleftrightarrow> priority a = Some ''CRITICAL''"
  by (auto simp: priority_rank_def priority_order_def split: option.splits)

lemma energy_loop_prefix:
  "all_fit available cum pre \<Longrightarrow>
     energy_loop available cum (pre @ xs) =
       pre @ energy_loop available (cum + sum_list (map get_impact pre)) xs"
  by (induction pre arbitrary: cum) (simp_all add: Let_def add.assoc)

lemma energy_loop_unclipped:
  "\<forall>x \<in> set xs. priority x \<noteq> Some ''CRITICAL'' \<Longrightarrow> subseq (energy_loop available cum xs) xs"
  by (induction xs arbitrary: cum) (auto simp: Let_def)

lemma sorted_tail_ranks:
  assumes "sort_key priority_rank xs = pre @ a # rest" "r \<in> set rest"
  shows "priority_rank a \<le> priority_rank r"
proof -
  have "sorted (map priority_rank (sort_key priority_rank xs))" by (rule sorted_sort_key)
  with assms show ?thesis by (simp add: sorted_append)
qed

section \<open>Policy validation\<close>

text \<open>
  Claim C1: a matching ALLOW policy forces \<open>valid = true\<close>, also when a BLOCK or DEFER
  policy matches. The loop of \<^verbatim>\<open>validate_action\<close> has no branch for ALLOW. A CRITICAL
  cooling action at load 5800 of 6000 matches \<^verbatim>\<open>emergency_override\<close> (ALLOW), every safety
  check passes, and the call still returns the early DEFER result of
  \<^verbatim>\<open>cooling_during_peak\<close>, which is not valid.
\<close>

theorem allow_match_still_deferred:
  "list_ex (\<lambda>p. effect p = ALLOW \<and>
       condition p (ctx_of 5800 80) (act ''ACTIVATE_ALL_COOLING'' ''CRITICAL'' ''All hotspot zones'' 300))
     policies \<and>
   all_safe (ctx_of 5800 80) \<and>
   validate_action (act ''ACTIVATE_ALL_COOLING'' ''CRITICAL'' ''All hotspot zones'' 300) (ctx_of 5800 80)
     = Deferred ''Peak energy load - defer cooling to avoid grid overload'' \<and>
   \<not> valid (validate_action (act ''ACTIVATE_ALL_COOLING'' ''CRITICAL'' ''All hotspot zones'' 300)
              (ctx_of 5800 80))"
  by code_simp

section \<open>The action-pair stage\<close>

text \<open>
  Claim C2: the resolved list holds at most one member of each mutually exclusive pair.
  \<^verbatim>\<open>_resolve_action_conflict\<close> appends the winner inside the inner loop and every other
  action after it (\<^verbatim>\<open>if not conflict_found\<close>), the loser too, so the stage returns its
  input (lemma \<open>resolve_action_conflict_id\<close>). With RAISE (CRITICAL) and LOWER (LOW) in
  different zones both come out of \<^verbatim>\<open>resolve_conflicts\<close>; with the same zone both come
  out of the pair stage itself.
\<close>

theorem pair_stage_keeps_both:
  "resolve_conflicts
     [act ''RAISE_COASTAL_BARRIERS'' ''CRITICAL'' ''Coastal zones'' 200,
      act ''LOWER_COASTAL_BARRIERS'' ''LOW'' ''Harbour'' 0] (ctx_of 5000 80)
   = [act ''RAISE_COASTAL_BARRIERS'' ''CRITICAL'' ''Coastal zones'' 200,
      act ''LOWER_COASTAL_BARRIERS'' ''LOW'' ''Harbour'' 0] \<and>
   resolve_action_conflict
     [act ''RAISE_COASTAL_BARRIERS'' ''CRITICAL'' ''Coastal zones'' 200,
      act ''LOWER_COASTAL_BARRIERS'' ''LOW'' ''Coastal zones'' 0] (ctx_of 5000 80)
   = [act ''RAISE_COASTAL_BARRIERS'' ''CRITICAL'' ''Coastal zones'' 200,
      act ''LOWER_COASTAL_BARRIERS'' ''LOW'' ''Coastal zones'' 0]"
  by code_simp

section \<open>The capacity stage\<close>

text \<open>
  Claim C3, as amended: the list the capacity stage returns sums to at most the available
  capacity, or it is empty while the available capacity is negative; and when the first
  action of the sorted order that overflows is CRITICAL, the result is the accepted prefix
  followed by that action with its impact set to the capacity that remains and
  \<^verbatim>\<open>scope_reduced\<close> set, and the total is exactly the available capacity.
\<close>

theorem capacity_stage_bound:
  "(sum_list (map get_impact (resolve_energy_conflict actions ctx)) \<le> 6000 - energy_load_or 4500 ctx \<or>
    (resolve_energy_conflict actions ctx = [] \<and> 6000 - energy_load_or 4500 ctx < 0)) \<and>
   (6000 - energy_load_or 4500 ctx < sum_list (map get_impact actions) \<and>
    sort_key priority_rank actions = pre @ a # rest \<and>
    all_fit (6000 - energy_load_or 4500 ctx) 0 pre \<and>
    6000 - energy_load_or 4500 ctx < sum_list (map get_impact pre) + get_impact a \<and>
    priority a = Some ''CRITICAL'' \<longrightarrow>
    resolve_energy_conflict actions ctx =
      pre @ [a\<lparr>energy_impact_mw := Some (6000 - energy_load_or 4500 ctx - sum_list (map get_impact pre)),
               scope_reduced := Some True\<rparr>] \<and>
    sum_list (map get_impact (resolve_energy_conflict actions ctx)) = 6000 - energy_load_or 4500 ctx)"
proof (intro conjI impI)
  let ?av = "6000 - energy_load_or 4500 ctx"
  show "sum_list (map get_impact (resolve_energy_conflict actions ctx)) \<le> ?av \<or>
        (resolve_energy_conflict actions ctx = [] \<and> ?av < 0)"
  proof (cases "sum_list (map get_impact actions) \<le> ?av")
    case True
    then show ?thesis by (simp add: resolve_energy_conflict_def)
  next
    case False
    then have out: "resolve_energy_conflict actions ctx =
        energy_loop ?av 0 (sort_key priority_rank actions)"
      by (simp add: resolve_energy_conflict_def)
    show ?thesis
    proof (cases "0 \<le> ?av")
      case True
      from energy_loop_within [OF True, of "sort_key priority_rank actions"] out
      show ?thesis by simp
    next
      case False
      with energy_loop_bound [of ?av 0 "sort_key priority_rank actions"] out
      show ?thesis by auto
    qed
  qed
next
  let ?av = "6000 - energy_load_or 4500 ctx"
  assume h: "?av < sum_list (map get_impact actions) \<and>
    sort_key priority_rank actions = pre @ a # rest \<and>
    all_fit ?av 0 pre \<and>
    ?av < sum_list (map get_impact pre) + get_impact a \<and>
    priority a = Some ''CRITICAL''"
  then have out: "resolve_energy_conflict actions ctx = energy_loop ?av 0 (pre @ a # rest)"
    by (simp add: resolve_energy_conflict_def)
  from h have fit: "all_fit ?av 0 pre" by blast
  have "energy_loop ?av 0 (pre @ a # rest) =
      pre @ energy_loop ?av (0 + sum_list (map get_impact pre)) (a # rest)"
    by (rule energy_loop_prefix [OF fit])
  also have "energy_loop ?av (0 + sum_list (map get_impact pre)) (a # rest) =
      [a\<lparr>energy_impact_mw := Some (?av - sum_list (map get_impact pre)), scope_reduced := Some True\<rparr>]"
    using h by (simp add: Let_def)
  finally have eq: "resolve_energy_conflict actions ctx =
      pre @ [a\<lparr>energy_impact_mw := Some (?av - sum_list (map get_impact pre)), scope_reduced := Some True\<rparr>]"
    using out by simp
  then show "resolve_energy_conflict actions ctx =
      pre @ [a\<lparr>energy_impact_mw := Some (?av - sum_list (map get_impact pre)), scope_reduced := Some True\<rparr>]" .
  from eq show "sum_list (map get_impact (resolve_energy_conflict actions ctx)) = ?av"
    by (simp add: get_impact_def)
qed

theorem capacity_stage_bound_witness:
  "6000 - energy_load_or 4500 (ctx_of 5500 80)
     < sum_list (map get_impact [act ''A'' ''CRITICAL'' ''z1'' 300, act ''B'' ''CRITICAL'' ''z2'' 250,
                                 act ''C'' ''HIGH'' ''z3'' 150]) \<and>
   sort_key priority_rank [act ''A'' ''CRITICAL'' ''z1'' 300, act ''B'' ''CRITICAL'' ''z2'' 250,
                           act ''C'' ''HIGH'' ''z3'' 150]
     = [act ''A'' ''CRITICAL'' ''z1'' 300] @ act ''B'' ''CRITICAL'' ''z2'' 250 # [act ''C'' ''HIGH'' ''z3'' 150] \<and>
   all_fit (6000 - energy_load_or 4500 (ctx_of 5500 80)) 0 [act ''A'' ''CRITICAL'' ''z1'' 300] \<and>
   6000 - energy_load_or 4500 (ctx_of 5500 80)
     < sum_list (map get_impact [act ''A'' ''CRITICAL'' ''z1'' 300]) + get_impact (act ''B'' ''CRITICAL'' ''z2'' 250) \<and>
   priority (act ''B'' ''CRITICAL'' ''z2'' 250) = Some ''CRITICAL'' \<and>
   resolve_energy_conflict [act ''A'' ''CRITICAL'' ''z1'' 300, act ''B'' ''CRITICAL'' ''z2'' 250,
                            act ''C'' ''HIGH'' ''z3'' 150] (ctx_of 5500 80)
     = [act ''A'' ''CRITICAL'' ''z1'' 300,
        (act ''B'' ''CRITICAL'' ''z2'' 250)\<lparr>energy_impact_mw := Some 200, scope_reduced := Some True\<rparr>] \<and>
   sum_list (map get_impact (resolve_energy_conflict [act ''A'' ''CRITICAL'' ''z1'' 300,
       act ''B'' ''CRITICAL'' ''z2'' 250, act ''C'' ''HIGH'' ''z3'' 150] (ctx_of 5500 80))) = 500"
proof -
  let ?A = "act ''A'' ''CRITICAL'' ''z1'' 300"
  let ?B = "act ''B'' ''CRITICAL'' ''z2'' 250"
  let ?C = "act ''C'' ''HIGH'' ''z3'' 150"
  let ?ctx = "ctx_of 5500 80"
  have av: "6000 - energy_load_or 4500 ?ctx = 500" by code_simp
  have h1: "6000 - energy_load_or 4500 ?ctx < sum_list (map get_impact [?A, ?B, ?C])" by code_simp
  have h2: "sort_key priority_rank [?A, ?B, ?C] = [?A] @ ?B # [?C]" by code_simp
  have h3: "all_fit (6000 - energy_load_or 4500 ?ctx) 0 [?A]" by code_simp
  have h4: "6000 - energy_load_or 4500 ?ctx < sum_list (map get_impact [?A]) + get_impact ?B"
    by code_simp
  have h5: "priority ?B = Some ''CRITICAL''" by code_simp
  have s: "sum_list (map get_impact [?A]) = 300" by code_simp
  from capacity_stage_bound [of "[?A, ?B, ?C]" ?ctx "[?A]" ?B "[?C]"] h1 h2 h3 h4 h5
  have r: "resolve_energy_conflict [?A, ?B, ?C] ?ctx =
      [?A] @ [?B\<lparr>energy_impact_mw := Some (6000 - energy_load_or 4500 ?ctx - sum_list (map get_impact [?A])),
                 scope_reduced := Some True\<rparr>]"
    and t: "sum_list (map get_impact (resolve_energy_conflict [?A, ?B, ?C] ?ctx)) = 6000 - energy_load_or 4500 ?ctx"
    by blast+
  have r': "resolve_energy_conflict [?A, ?B, ?C] ?ctx =
      [?A, ?B\<lparr>energy_impact_mw := Some 200, scope_reduced := Some True\<rparr>]"
    unfolding r av s by simp
  have t': "sum_list (map get_impact (resolve_energy_conflict [?A, ?B, ?C] ?ctx)) = 500"
    using t av by (rule trans)
  note r' t'
  with h1 h2 h3 h4 h5 show ?thesis by blast
qed

text \<open>
  Claim C3 as stated fails where the load exceeds the capacity: nothing validates, the
  stage returns the empty list, whose sum 0 is above the available \<open>-1000\<close>, and no
  CRITICAL action is there to be clipped.
\<close>

theorem capacity_bound_counterexample:
  "resolve_energy_conflict [] (ctx_of 7000 80) = [] \<and>
   6000 - energy_load_or 4500 (ctx_of 7000 80) = - 1000 \<and>
   \<not> sum_list (map get_impact (resolve_energy_conflict [] (ctx_of 7000 80)))
       \<le> 6000 - energy_load_or 4500 (ctx_of 7000 80)"
  by code_simp

text \<open>
  Claim C4, as amended: when the first action of the sorted order that overflows is not
  CRITICAL, it is dropped without clipping and the loop goes on with the same running
  total: the result is the accepted prefix followed by what the loop accepts from the
  later actions, each of them unchanged (none is clipped, since every later action sorts
  at or after a non-CRITICAL one), and a next action that fits is accepted.
\<close>

theorem noncritical_overflow_skipped:
  assumes over: "6000 - energy_load_or 4500 ctx < sum_list (map get_impact actions)"
    and order: "sort_key priority_rank actions = pre @ a # rest"
    and fit: "all_fit (6000 - energy_load_or 4500 ctx) 0 pre"
    and first: "6000 - energy_load_or 4500 ctx < sum_list (map get_impact pre) + get_impact a"
    and prio: "priority a \<noteq> Some ''CRITICAL''"
  shows "resolve_energy_conflict actions ctx =
           pre @ energy_loop (6000 - energy_load_or 4500 ctx) (sum_list (map get_impact pre)) rest \<and>
         subseq (energy_loop (6000 - energy_load_or 4500 ctx) (sum_list (map get_impact pre)) rest) rest \<and>
         (\<forall>r rest'. rest = r # rest' \<and>
            sum_list (map get_impact pre) + get_impact r \<le> 6000 - energy_load_or 4500 ctx \<longrightarrow>
            energy_loop (6000 - energy_load_or 4500 ctx) (sum_list (map get_impact pre)) rest =
              r # energy_loop (6000 - energy_load_or 4500 ctx)
                    (sum_list (map get_impact pre) + get_impact r) rest')"
proof (intro conjI allI impI)
  let ?av = "6000 - energy_load_or 4500 ctx"
  let ?c = "sum_list (map get_impact pre)"
  have "resolve_energy_conflict actions ctx = energy_loop ?av 0 (pre @ a # rest)"
    using over order by (simp add: resolve_energy_conflict_def)
  also have "\<dots> = pre @ energy_loop ?av (0 + ?c) (a # rest)"
    by (rule energy_loop_prefix [OF fit])
  also have "energy_loop ?av (0 + ?c) (a # rest) = energy_loop ?av ?c rest"
    using first prio by (simp add: Let_def)
  finally show "resolve_energy_conflict actions ctx = pre @ energy_loop ?av ?c rest" .
  have "priority r \<noteq> Some ''CRITICAL''" if r: "r \<in> set rest" for r
  proof -
    from prio have "priority_rank a \<noteq> 0" by (simp add: rank_zero_iff)
    with sorted_tail_ranks [OF order r] have "priority_rank r \<noteq> 0" by simp
    then show ?thesis by (simp add: rank_zero_iff)
  qed
  then show "subseq (energy_loop ?av ?c rest) rest"
    by (simp add: energy_loop_unclipped)
next
  fix r rest'
  let ?av = "6000 - energy_load_or 4500 ctx"
  let ?c = "sum_list (map get_impact pre)"
  assume "rest = r # rest' \<and> ?c + get_impact r \<le> ?av"
  then show "energy_loop ?av ?c rest = r # energy_loop ?av (?c + get_impact r) rest'"
    by (simp add: Let_def)
qed

theorem noncritical_overflow_skipped_witness:
  "6000 - energy_load_or 4500 (ctx_of 5500 80)
     < sum_list (map get_impact [act ''A'' ''HIGH'' ''z1'' 600, act ''B'' ''MEDIUM'' ''z2'' 100]) \<and>
   sort_key priority_rank [act ''A'' ''HIGH'' ''z1'' 600, act ''B'' ''MEDIUM'' ''z2'' 100]
     = [] @ act ''A'' ''HIGH'' ''z1'' 600 # [act ''B'' ''MEDIUM'' ''z2'' 100] \<and>
   all_fit (6000 - energy_load_or 4500 (ctx_of 5500 80)) 0 [] \<and>
   6000 - energy_load_or 4500 (ctx_of 5500 80)
     < sum_list (map get_impact []) + get_impact (act ''A'' ''HIGH'' ''z1'' 600) \<and>
   priority (act ''A'' ''HIGH'' ''z1'' 600) \<noteq> Some ''CRITICAL'' \<and>
   resolve_energy_conflict [act ''A'' ''HIGH'' ''z1'' 600, act ''B'' ''MEDIUM'' ''z2'' 100] (ctx_of 5500 80)
     = [] @ energy_loop (6000 - energy_load_or 4500 (ctx_of 5500 80)) (sum_list (map get_impact []))
              [act ''B'' ''MEDIUM'' ''z2'' 100] \<and>
   subseq (energy_loop (6000 - energy_load_or 4500 (ctx_of 5500 80)) (sum_list (map get_impact []))
             [act ''B'' ''MEDIUM'' ''z2'' 100]) [act ''B'' ''MEDIUM'' ''z2'' 100] \<and>
   sum_list (map get_impact []) + get_impact (act ''B'' ''MEDIUM'' ''z2'' 100)
     \<le> 6000 - energy_load_or 4500 (ctx_of 5500 80) \<and>
   energy_loop (6000 - energy_load_or 4500 (ctx_of 5500 80)) (sum_list (map get_impact []))
       [act ''B'' ''MEDIUM'' ''z2'' 100]
     = act ''B'' ''MEDIUM'' ''z2'' 100
       # energy_loop (6000 - energy_load_or 4500 (ctx_of 5500 80))
           (sum_list (map get_impact []) + get_impact (act ''B'' ''MEDIUM'' ''z2'' 100)) []"
proof -
  let ?A = "act ''A'' ''HIGH'' ''z1'' 600"
  let ?B = "act ''B'' ''MEDIUM'' ''z2'' 100"
  let ?ctx = "ctx_of 5500 80"
  have h1: "6000 - energy_load_or 4500 ?ctx < sum_list (map get_impact [?A, ?B])" by code_simp
  have h2: "sort_key priority_rank [?A, ?B] = [] @ ?A # [?B]" by code_simp
  have h3: "all_fit (6000 - energy_load_or 4500 ?ctx) 0 []" by simp
  have h4: "6000 - energy_load_or 4500 ?ctx < sum_list (map get_impact []) + get_impact ?A"
    by code_simp
  have h5: "priority ?A \<noteq> Some ''CRITICAL''" by code_simp
  have h6: "sum_list (map get_impact []) + get_impact ?B \<le> 6000 - energy_load_or 4500 ?ctx"
    by code_simp
  from noncritical_overflow_skipped [OF h1 h2 h3 h4 h5] h1 h2 h3 h4 h5 h6 show ?thesis by blast
qed

text \<open>
  Claim C4 as stated fails: with 500 MW available, HIGH/600 overflows first and is
  dropped, and the MEDIUM/100 action after it in the sorted order is accepted.
\<close>

theorem later_action_accepted_counterexample:
  "sort_key priority_rank [act ''A'' ''HIGH'' ''z1'' 600, act ''B'' ''MEDIUM'' ''z2'' 100]
     = [act ''A'' ''HIGH'' ''z1'' 600, act ''B'' ''MEDIUM'' ''z2'' 100] \<and>
   6000 - energy_load_or 4500 (ctx_of 5500 80) = 500 \<and>
   priority (act ''A'' ''HIGH'' ''z1'' 600) \<noteq> Some ''CRITICAL'' \<and>
   resolve_energy_conflict [act ''A'' ''HIGH'' ''z1'' 600, act ''B'' ''MEDIUM'' ''z2'' 100] (ctx_of 5500 80)
     = [act ''B'' ''MEDIUM'' ''z2'' 100]"
  by code_simp

section \<open>Safety checks\<close>

lemma failed_check_ids:
  "map r_check_id (filter (\<lambda>r. \<not> passed r) (map (run_safety_check ctx) checks)) =
     map check_id (filter (\<lambda>c. \<not> check c ctx) checks)"
  by (induction checks) (simp_all add: run_safety_check_def)

lemma failed_check_messages:
  "r \<in> set (map (run_safety_check ctx) checks) \<Longrightarrow> \<not> passed r \<Longrightarrow>
     r_message r = ''Safety check failed: '' @ r_check_id r"
  by (auto simp: run_safety_check_def split: if_splits)

text \<open>
  Claim C7, as amended: when a safety check fails for a context whose load is within the
  float range (at most \<open>10^300\<close> in absolute value, so that the true division in the policy
  conditions returns), every action validated against it is invalid and
  \<^verbatim>\<open>resolve_conflicts\<close> returns the empty list for every input.
  The full verdict lists the failing checks (the entries that did not pass are those of the
  failing checks, in order, each with the message "Safety check failed: id"); the early
  return of a DEFER policy, which a cooling action gets at a load above 90%, carries no
  safety results.
\<close>

theorem failed_safety_invalidates:
  assumes "6000 \<le> energy_load_or 0 ctx \<or>
           (case system_health ctx of None \<Rightarrow> ''operational'' | Some h \<Rightarrow> h) \<noteq> ''operational'' \<or>
           (case sensor_connectivity ctx of None \<Rightarrow> 95 / 100 | Some s \<Rightarrow> s) \<le> 8 / 10"
    and "\<bar>energy_load_or 0 ctx\<bar> \<le> 10 ^ 300"
  shows "\<not> valid (validate_action a ctx) \<and>
         (case safety_checks_of (validate_action a ctx) of
            None \<Rightarrow> str_in ''COOLING'' (get_action a) \<and> 9 / 10 < load_ratio ctx
          | Some rs \<Rightarrow>
              rs = map (run_safety_check ctx) safety_checks \<and>
              filter (\<lambda>r. \<not> passed r) rs \<noteq> [] \<and>
              map r_check_id (filter (\<lambda>r. \<not> passed r) rs) =
                map check_id (filter (\<lambda>c. \<not> check c ctx) safety_checks) \<and>
              list_all (\<lambda>r. r_message r = ''Safety check failed: '' @ r_check_id r)
                (filter (\<lambda>r. \<not> passed r) rs)) \<and>
         resolve_conflicts actions ctx = []"
proof -
  from assms(1) have unsafe: "\<not> all_safe ctx" by (auto simp: all_safe_iff)
  then have v: "\<not> valid (validate_action a ctx)" by (simp add: valid_iff)
  let ?rs = "map (run_safety_check ctx) safety_checks"
  from unsafe have "\<not> list_all passed ?rs" by (simp add: safe_results all_safe_def)
  then have ne: "filter (\<lambda>r. \<not> passed r) ?rs \<noteq> []"
    by (simp add: filter_empty_conv list_all_iff)
  have msg: "list_all (\<lambda>r. r_message r = ''Safety check failed: '' @ r_check_id r)
      (filter (\<lambda>r. \<not> passed r) ?rs)"
    unfolding list_all_iff using failed_check_messages [of _ ctx safety_checks] by auto
  have "case safety_checks_of (validate_action a ctx) of
            None \<Rightarrow> str_in ''COOLING'' (get_action a) \<and> 9 / 10 < load_ratio ctx
          | Some rs \<Rightarrow>
              rs = ?rs \<and> filter (\<lambda>r. \<not> passed r) rs \<noteq> [] \<and>
              map r_check_id (filter (\<lambda>r. \<not> passed r) rs) =
                map check_id (filter (\<lambda>c. \<not> check c ctx) safety_checks) \<and>
              list_all (\<lambda>r. r_message r = ''Safety check failed: '' @ r_check_id r)
                (filter (\<lambda>r. \<not> passed r) rs)"
  proof (cases "deferred ctx a")
    case True
    then show ?thesis by (simp add: safety_checks_of_eq) (simp add: deferred_iff)
  next
    case False
    with ne msg failed_check_ids [of ctx safety_checks] show ?thesis
      by (simp add: safety_checks_of_eq)
  qed
  with v unsafe_resolve [OF unsafe] show ?thesis by blast
qed

theorem failed_safety_invalidates_witness:
  "6000 \<le> energy_load_or 0 (ctx_of 6000 80) \<and>
   \<bar>energy_load_or 0 (ctx_of 6000 80)\<bar> \<le> 10 ^ 300 \<and>
   \<not> valid (validate_action (act ''RAISE_COASTAL_BARRIERS'' ''CRITICAL'' ''Coastal zones'' 200)
              (ctx_of 6000 80)) \<and>
   safety_checks_of (validate_action (act ''RAISE_COASTAL_BARRIERS'' ''CRITICAL'' ''Coastal zones'' 200)
                       (ctx_of 6000 80))
     = Some [\<lparr>r_check_id = ''energy_capacity'', passed = False,
               r_message = ''Safety check failed: energy_capacity''\<rparr>,
             \<lparr>r_check_id = ''system_health'', passed = True,
               r_message = ''System health check passed''\<rparr>,
             \<lparr>r_check_id = ''sensor_connectivity'', passed = True,
               r_message = ''Sensor connectivity check passed''\<rparr>] \<and>
   resolve_conflicts [act ''RAISE_COASTAL_BARRIERS'' ''CRITICAL'' ''Coastal zones'' 200]
     (ctx_of 6000 80) = []"
proof -
  let ?a = "act ''RAISE_COASTAL_BARRIERS'' ''CRITICAL'' ''Coastal zones'' 200"
  let ?c = "ctx_of 6000 80"
  have l: "energy_load_or 0 ?c = 6000" by code_simp
  have b: "\<bar>energy_load_or 0 ?c\<bar> \<le> 10 ^ 300" unfolding l by simp
  have h: "6000 \<le> energy_load_or 0 ?c" by code_simp
  then have h': "6000 \<le> energy_load_or 0 ?c \<or>
           (case system_health ?c of None \<Rightarrow> ''operational'' | Some h \<Rightarrow> h) \<noteq> ''operational'' \<or>
           (case sensor_connectivity ?c of None \<Rightarrow> 95 / 100 | Some s \<Rightarrow> s) \<le> 8 / 10"
    by (rule disjI1)
  have s: "safety_checks_of (validate_action ?a ?c)
     = Some [\<lparr>r_check_id = ''energy_capacity'', passed = False,
               r_message = ''Safety check failed: energy_capacity''\<rparr>,
             \<lparr>r_check_id = ''system_health'', passed = True,
               r_message = ''System health check passed''\<rparr>,
             \<lparr>r_check_id = ''sensor_connectivity'', passed = True,
               r_message = ''Sensor connectivity check passed''\<rparr>]"
    by code_simp
  from failed_safety_invalidates [OF h' b, of ?a "[?a]"]
  have "\<not> valid (validate_action ?a ?c)" "resolve_conflicts [?a] ?c = []" by blast+
  with h b s show ?thesis by blast
qed

text \<open>
  Claim C7 as stated fails on the listing: at load 6000 the capacity check fails, and a
  cooling action is answered by the DEFER return, which has no \<^verbatim>\<open>safety_checks\<close> key.
\<close>

theorem deferred_lists_no_checks_counterexample:
  "6000 \<le> energy_load_or 0 (ctx_of 6000 80) \<and>
   validate_action (act ''ACTIVATE_ALL_COOLING'' ''CRITICAL'' ''All hotspot zones'' 300) (ctx_of 6000 80)
     = Deferred ''Peak energy load - defer cooling to avoid grid overload'' \<and>
   safety_checks_of (validate_action (act ''ACTIVATE_ALL_COOLING'' ''CRITICAL'' ''All hotspot zones'' 300)
                       (ctx_of 6000 80)) = None"
  by code_simp

section \<open>Resolution as a whole\<close>

lemma sum_list_mset_eq:
  fixes f :: "'a \<Rightarrow> int"
  shows "mset xs = mset ys \<Longrightarrow> sum_list (map f xs) = sum_list (map f ys)"
proof -
  assume "mset xs = mset ys"
  then have "mset (map f xs) = mset (map f ys)" by simp
  then have "sum_mset (mset (map f xs)) = sum_mset (mset (map f ys))" by (rule arg_cong)
  then show ?thesis by (simp only: sum_mset_sum_list)
qed

lemma sum_list_map_nonneg:
  fixes f :: "'a \<Rightarrow> int"
  shows "\<forall>z \<in> set zs. 0 \<le> f z \<Longrightarrow> 0 \<le> sum_list (map f zs)"
  by (induction zs) auto

lemma sum_list_submset:
  fixes f :: "'a \<Rightarrow> int"
  assumes sub: "mset ys \<subseteq># mset xs" and nn: "\<forall>x \<in> set xs. 0 \<le> f x"
  shows "sum_list (map f ys) \<le> sum_list (map f xs)"
proof -
  from sub obtain C where C: "mset xs = mset ys + C" by (auto simp: mset_subset_eq_exists_conv)
  obtain zs where zs: "mset zs = C" using ex_mset by blast
  with C have eq: "mset xs = mset (ys @ zs)" by simp
  then have "set zs \<subseteq> set xs" by (metis mset_eq_setD set_append sup_ge2)
  with nn have "\<forall>z \<in> set zs. 0 \<le> f z" by blast
  then have "0 \<le> sum_list (map f zs)" by (rule sum_list_map_nonneg)
  moreover have "sum_list (map f xs) = sum_list (map f (ys @ zs))"
    by (rule sum_list_mset_eq [OF eq])
  ultimately show ?thesis by simp
qed

lemma energy_loop_nonneg:
  "cum \<le> available \<Longrightarrow> \<forall>x \<in> set xs. 0 \<le> get_impact x \<Longrightarrow>
     \<forall>y \<in> set (energy_loop available cum xs). 0 \<le> get_impact y"
proof (induction xs arbitrary: cum)
  case Nil
  then show ?case by simp
next
  case (Cons a xs)
  show ?case
  proof (cases "cum + get_impact a \<le> available")
    case True
    with Cons.IH [OF True] Cons.prems(2) show ?thesis by (simp add: Let_def)
  next
    case False
    with Cons.IH [OF Cons.prems(1)] Cons.prems show ?thesis
      by (simp add: Let_def get_impact_def)
  qed
qed

lemma safe_available: "all_safe ctx \<Longrightarrow> 0 \<le> 6000 - energy_load_or 4500 ctx"
  by (auto simp: all_safe_iff energy_load_or_def split: option.splits)

lemma resolve_energy_nonneg:
  assumes "0 \<le> 6000 - energy_load_or 4500 ctx" "\<forall>x \<in> set xs. 0 \<le> get_impact x"
  shows "(\<forall>y \<in> set (resolve_energy_conflict xs ctx). 0 \<le> get_impact y) \<and>
         sum_list (map get_impact (resolve_energy_conflict xs ctx)) \<le> 6000 - energy_load_or 4500 ctx"
proof (cases "sum_list (map get_impact xs) \<le> 6000 - energy_load_or 4500 ctx")
  case True
  with assms show ?thesis by (simp add: resolve_energy_conflict_def)
next
  case False
  then have out: "resolve_energy_conflict xs ctx =
      energy_loop (6000 - energy_load_or 4500 ctx) 0 (sort_key priority_rank xs)"
    by (simp add: resolve_energy_conflict_def)
  have "\<forall>x \<in> set (sort_key priority_rank xs). 0 \<le> get_impact x" using assms(2) by simp
  from energy_loop_nonneg [OF assms(1) this]
    energy_loop_within [OF assms(1), of "sort_key priority_rank xs"]
  show ?thesis unfolding out by simp
qed

lemma resolve_fits:
  assumes nn: "\<forall>a \<in> set actions. 0 \<le> get_impact a"
  shows "sum_list (map get_impact (resolve_conflicts actions ctx)) \<le> 6000 - energy_load_or 4500 ctx \<or>
         resolve_conflicts actions ctx = []"
proof (cases "all_safe ctx")
  case False
  then show ?thesis by (simp add: unsafe_resolve)
next
  case True
  let ?V = "validated_actions actions ctx"
  let ?E = "resolve_energy_conflict ?V ctx"
  have "\<forall>x \<in> set ?V. 0 \<le> get_impact x"
    using nn by (auto simp: validated_actions_eq with_air_filter_def get_impact_def)
  from resolve_energy_nonneg [OF safe_available [OF True] this]
  have e: "\<forall>y \<in> set ?E. 0 \<le> get_impact y"
    "sum_list (map get_impact ?E) \<le> 6000 - energy_load_or 4500 ctx" by blast+
  have "sum_list (map get_impact (resolve_zone_conflict ?E ctx)) \<le> sum_list (map get_impact ?E)"
    by (rule sum_list_submset [OF resolve_zone_mset e(1)])
  with e(2) show ?thesis unfolding resolve_conflicts_eq by simp
qed

text \<open>
  Claim C5, as amended: running \<^verbatim>\<open>resolve_conflicts\<close> again on its own result, under the
  same context, returns that result unchanged provided the MODIFY policy matches none of
  the returned actions (the AQI is at most 200, or no returned name contains COOLING) and
  the returned impacts sum to at most the available capacity. The second run also
  returns the first result whenever the AQI is at most 200 and no candidate has a negative
  impact.
\<close>

theorem resolve_conflicts_idempotent:
  "((\<forall>b \<in> set (resolve_conflicts actions ctx).
        \<not> (str_in ''COOLING'' (get_action b) \<and> 200 < get_aqi 0 ctx)) \<and>
    sum_list (map get_impact (resolve_conflicts actions ctx)) \<le> 6000 - energy_load_or 4500 ctx
    \<longrightarrow> resolve_conflicts (resolve_conflicts actions ctx) ctx = resolve_conflicts actions ctx) \<and>
   (get_aqi 0 ctx \<le> 200 \<and> (\<forall>a \<in> set actions. 0 \<le> get_impact a)
    \<longrightarrow> resolve_conflicts (resolve_conflicts actions ctx) ctx = resolve_conflicts actions ctx)"
proof (intro conjI impI)
  assume h: "(\<forall>b \<in> set (resolve_conflicts actions ctx).
        \<not> (str_in ''COOLING'' (get_action b) \<and> 200 < get_aqi 0 ctx)) \<and>
    sum_list (map get_impact (resolve_conflicts actions ctx)) \<le> 6000 - energy_load_or 4500 ctx"
  then have "\<forall>b \<in> set (resolve_conflicts actions ctx). \<not> rewritten ctx b"
    by (simp add: rewritten_iff)
  with h show "resolve_conflicts (resolve_conflicts actions ctx) ctx = resolve_conflicts actions ctx"
    by (simp add: resolve_twice)
next
  assume h: "get_aqi 0 ctx \<le> 200 \<and> (\<forall>a \<in> set actions. 0 \<le> get_impact a)"
  then have nr: "\<forall>b \<in> set (resolve_conflicts actions ctx). \<not> rewritten ctx b"
    by (simp add: rewritten_iff)
  from h resolve_fits [of actions ctx] consider
    (fits) "sum_list (map get_impact (resolve_conflicts actions ctx)) \<le> 6000 - energy_load_or 4500 ctx"
    | (empty) "resolve_conflicts actions ctx = []" by blast
  then show "resolve_conflicts (resolve_conflicts actions ctx) ctx = resolve_conflicts actions ctx"
  proof cases
    case fits
    with nr show ?thesis by (rule resolve_twice)
  next
    case empty
    have "resolve_conflicts [] ctx = []"
      by (simp add: resolve_conflicts_eq resolve_energy_Nil resolve_zone_Nil)
    with empty show ?thesis by simp
  qed
qed

theorem resolve_conflicts_idempotent_witness:
  "get_aqi 0 (ctx_of 5000 80) \<le> 200 \<and>
   list_all (\<lambda>a. 0 \<le> get_impact a)
     [act ''ACTIVATE_ALL_COOLING'' ''CRITICAL'' ''All hotspot zones'' 300,
      act ''RAISE_COASTAL_BARRIERS'' ''CRITICAL'' ''Coastal zones'' 200] \<and>
   list_all (\<lambda>b. \<not> (str_in ''COOLING'' (get_action b) \<and> 200 < get_aqi 0 (ctx_of 5000 80)))
     (resolve_conflicts [act ''ACTIVATE_ALL_COOLING'' ''CRITICAL'' ''All hotspot zones'' 300,
                         act ''RAISE_COASTAL_BARRIERS'' ''CRITICAL'' ''Coastal zones'' 200]
        (ctx_of 5000 80)) \<and>
   sum_list (map get_impact (resolve_conflicts
       [act ''ACTIVATE_ALL_COOLING'' ''CRITICAL'' ''All hotspot zones'' 300,
        act ''RAISE_COASTAL_BARRIERS'' ''CRITICAL'' ''Coastal zones'' 200] (ctx_of 5000 80)))
     \<le> 6000 - energy_load_or 4500 (ctx_of 5000 80) \<and>
   resolve_conflicts [act ''ACTIVATE_ALL_COOLING'' ''CRITICAL'' ''All hotspot zones'' 300,
                      act ''RAISE_COASTAL_BARRIERS'' ''CRITICAL'' ''Coastal zones'' 200] (ctx_of 5000 80)
     \<noteq> [] \<and>
   resolve_conflicts (resolve_conflicts
       [act ''ACTIVATE_ALL_COOLING'' ''CRITICAL'' ''All hotspot zones'' 300,
        act ''RAISE_COASTAL_BARRIERS'' ''CRITICAL'' ''Coastal zones'' 200] (ctx_of 5000 80)) (ctx_of 5000 80)
     = resolve_conflicts [act ''ACTIVATE_ALL_COOLING'' ''CRITICAL'' ''All hotspot zones'' 300,
                          act ''RAISE_COASTAL_BARRIERS'' ''CRITICAL'' ''Coastal zones'' 200] (ctx_of 5000 80)"
proof -
  let ?xs = "[act ''ACTIVATE_ALL_COOLING'' ''CRITICAL'' ''All hotspot zones'' 300,
              act ''RAISE_COASTAL_BARRIERS'' ''CRITICAL'' ''Coastal zones'' 200]"
  let ?c = "ctx_of 5000 80"
  have r: "resolve_conflicts ?xs ?c = ?xs" by code_simp
  have h1: "get_aqi 0 ?c \<le> 200" by code_simp
  have h2: "list_all (\<lambda>a. 0 \<le> get_impact a) ?xs" by code_simp
  have h3: "list_all (\<lambda>b. \<not> (str_in ''COOLING'' (get_action b) \<and> 200 < get_aqi 0 ?c))
      (resolve_conflicts ?xs ?c)" by code_simp
  have h4: "sum_list (map get_impact (resolve_conflicts ?xs ?c)) \<le> 6000 - energy_load_or 4500 ?c"
    by code_simp
  have h5: "resolve_conflicts ?xs ?c \<noteq> []" unfolding r by simp
  from h3 have h3': "\<forall>b \<in> set (resolve_conflicts ?xs ?c).
      \<not> (str_in ''COOLING'' (get_action b) \<and> 200 < get_aqi 0 ?c)"
    by (simp only: list_all_iff)
  from resolve_conflicts_idempotent [of ?xs ?c] h3' h4
  have "resolve_conflicts (resolve_conflicts ?xs ?c) ?c = resolve_conflicts ?xs ?c" by blast
  with h1 h2 h3 h4 h5 show ?thesis by blast
qed

text \<open>
  Claim C5 as stated fails in two ways. At AQI 250 the rewritten cooling action still has
  COOLING in its name, so the second run appends the air-filtration suffix to its reason
  once more. And the zone stage may drop a load-shedding action after the capacity stage
  has counted it: the purifiers (250) and the load reduction (-200) share "All zones", the
  first run returns barriers and purifiers with total 450 against 250 available, and the
  second run clips the purifiers to 50.
\<close>

theorem resolve_conflicts_idempotent_counterexample:
  "resolve_conflicts (resolve_conflicts [act ''ACTIVATE_ALL_COOLING'' ''CRITICAL'' ''All hotspot zones'' 300]
       (ctx_of 4500 250)) (ctx_of 4500 250)
     \<noteq> resolve_conflicts [act ''ACTIVATE_ALL_COOLING'' ''CRITICAL'' ''All hotspot zones'' 300]
          (ctx_of 4500 250) \<and>
   resolve_conflicts (resolve_conflicts
       [act ''RAISE_COASTAL_BARRIERS'' ''CRITICAL'' ''Coastal zones'' 200,
        act ''ACTIVATE_ALL_AIR_PURIFIERS'' ''CRITICAL'' ''All zones'' 250,
        act ''REDUCE_NON_CRITICAL_LOAD'' ''CRITICAL'' ''All zones'' (- 200)] (ctx_of 5750 250))
     (ctx_of 5750 250)
     \<noteq> resolve_conflicts
          [act ''RAISE_COASTAL_BARRIERS'' ''CRITICAL'' ''Coastal zones'' 200,
           act ''ACTIVATE_ALL_AIR_PURIFIERS'' ''CRITICAL'' ''All zones'' 250,
           act ''REDUCE_NON_CRITICAL_LOAD'' ''CRITICAL'' ''All zones'' (- 200)] (ctx_of 5750 250)"
  by code_simp

lemma dedupe_length: "length (dedupe xs seen) \<le> length xs"
  by (induction xs arbitrary: seen) (auto simp: Let_def le_SucI)

lemma simple_resolve_length: "length (simple_resolve xs ctx) \<le> length xs"
  using dedupe_length [of "sort_key priority_rank xs" "{}"] by (simp add: simple_resolve_def)

lemma resolve_conflicts_length: "length (resolve_conflicts xs ctx) \<le> length xs"
proof -
  from resolve_conflicts_source obtain src where
    s: "mset src \<subseteq># mset (filter (\<lambda>a. valid (validate_action a ctx)) xs)"
       "list_all2 (derived ctx) src (resolve_conflicts xs ctx)" by blast
  from s(2) have "length (resolve_conflicts xs ctx) = length src" by (simp add: list_all2_lengthD)
  also from s(1) have "length src \<le> length (filter (\<lambda>a. valid (validate_action a ctx)) xs)"
    by (metis size_mset size_mset_mono)
  also have "\<dots> \<le> length xs" by simp
  finally show ?thesis .
qed

text \<open>
  Claim C10: every action that \<^verbatim>\<open>resolve_conflicts\<close> returns comes from its own input
  candidate (the sources form a sub-multiset of the input, paired one to one with the
  output) and is that candidate except for what \<open>derived\<close> allows: name and reason
  rewritten by the MODIFY policy, and for a CRITICAL action a lower impact with
  \<^verbatim>\<open>scope_reduced\<close> set. The output is never longer than the input, and
  \<^verbatim>\<open>conflicts_detected\<close> is never negative.
\<close>

theorem resolution_frame:
  "(\<exists>src. mset src \<subseteq># mset actions \<and>
          list_all2 (derived ctx) src (resolve_conflicts actions ctx)) \<and>
   length (resolve_conflicts actions ctx) \<le> length actions \<and>
   (orchestrate cty now ags pe ctx = Inr r \<longrightarrow> 0 \<le> conflicts_detected r)"
proof (intro conjI impI)
  from resolve_conflicts_source obtain src where
    s: "mset src \<subseteq># mset (filter (\<lambda>a. valid (validate_action a ctx)) actions)"
       "list_all2 (derived ctx) src (resolve_conflicts actions ctx)" by blast
  have "mset (filter (\<lambda>a. valid (validate_action a ctx)) actions) \<subseteq># mset actions" by simp
  with s(1) have "mset src \<subseteq># mset actions" by (rule subset_mset.order_trans)
  with s(2) show "\<exists>src. mset src \<subseteq># mset actions \<and>
      list_all2 (derived ctx) src (resolve_conflicts actions ctx)" by blast
next
  show "length (resolve_conflicts actions ctx) \<le> length actions" by (rule resolve_conflicts_length)
next
  assume r: "orchestrate cty now ags pe ctx = Inr r"
  then obtain ans acts where
    run: "run_agents (sort_key agent_priority ags) ctx = Inr (ans, acts)"
    by (auto simp: orchestrate_def split: sum.splits)
  let ?res = "if pe then resolve_conflicts acts ctx else simple_resolve acts ctx"
  from r run have "conflicts_detected r = int (length acts) - int (length ?res)"
    by (auto simp: orchestrate_def Let_def)
  moreover have "length ?res \<le> length acts"
    by (simp add: resolve_conflicts_length simple_resolve_length)
  ultimately show "0 \<le> conflicts_detected r" by simp
qed

theorem resolution_frame_witness:
  "\<not> isl (orchestrate ''Mumbai'' ''now'' [FloodAgent] True ((ctx_of 5000 80)\<lparr>flood_risk := Some ''High''\<rparr>)) \<and>
   0 \<le> conflicts_detected
         (projr (orchestrate ''Mumbai'' ''now'' [FloodAgent] True
                   ((ctx_of 5000 80)\<lparr>flood_risk := Some ''High''\<rparr>))) \<and>
   length (resolve_conflicts [act ''RAISE_COASTAL_BARRIERS'' ''CRITICAL'' ''Coastal zones'' 200,
                              act ''PREPARE_BARRIERS'' ''MEDIUM'' ''Coastal zones'' 0]
             ((ctx_of 5000 80)\<lparr>flood_risk := Some ''High''\<rparr>))
     \<le> length [act ''RAISE_COASTAL_BARRIERS'' ''CRITICAL'' ''Coastal zones'' 200,
               act ''PREPARE_BARRIERS'' ''MEDIUM'' ''Coastal zones'' 0]"
proof -
  let ?c = "(ctx_of 5000 80)\<lparr>flood_risk := Some ''High''\<rparr>"
  let ?o = "orchestrate ''Mumbai'' ''now'' [FloodAgent] True ?c"
  let ?xs = "[act ''RAISE_COASTAL_BARRIERS'' ''CRITICAL'' ''Coastal zones'' 200,
              act ''PREPARE_BARRIERS'' ''MEDIUM'' ''Coastal zones'' 0]"
  have ok: "\<not> isl ?o" by code_simp
  then have eq: "?o = Inr (projr ?o)" by simp
  from resolution_frame [of ?xs ?c "''Mumbai''" "''now''" "[FloodAgent]" True "projr ?o"] eq
  have "0 \<le> conflicts_detected (projr ?o)"
    and "length (resolve_conflicts ?xs ?c) \<le> length ?xs" by blast+
  with ok show ?thesis by blast
qed

section \<open>The heat agent\<close>

text \<open>
  Claim C9, as amended: without a forecast, \<^verbatim>\<open>HeatAgent.analyze\<close> returns an analysis
  whose risk level follows the temperature (30 when absent) with strict comparisons:
  at most 32 is Low, above 32 up to 35 is Medium, above 35 up to 38 is High, above 38 is
  Critical.
\<close>

theorem heat_risk_thresholds:
  assumes "temp_forecast ctx = None"
  shows "case heat_analyze f ctx of
           Inl e \<Rightarrow> False
         | Inr an \<Rightarrow>
             (let temp = (case temperature ctx of None \<Rightarrow> 30 | Some t \<Rightarrow> t) in
              (temp \<le> 32 \<longrightarrow> risk_level an = ''Low'') \<and>
              (32 < temp \<and> temp \<le> 35 \<longrightarrow> risk_level an = ''Medium'') \<and>
              (35 < temp \<and> temp \<le> 38 \<longrightarrow> risk_level an = ''High'') \<and>
              (38 < temp \<longrightarrow> risk_level an = ''Critical''))"
  using assms
  by (simp add: heat_analyze_def heat_risk_level_def forecast_above_def forecast_maximum_def Let_def)

theorem heat_risk_thresholds_witness:
  "temp_forecast ((ctx_of 4500 80)\<lparr>temperature := Some 38\<rparr>) = None \<and>
   (case heat_analyze plain_formats ((ctx_of 4500 80)\<lparr>temperature := Some 38\<rparr>) of
      Inl e \<Rightarrow> False | Inr an \<Rightarrow> risk_level an = ''High'')"
proof -
  let ?c = "(ctx_of 4500 80)\<lparr>temperature := Some 38\<rparr>"
  have h: "temp_forecast ?c = None" by (simp add: ctx_of_def)
  have t: "temperature ?c = Some 38" by (simp add: ctx_of_def)
  from heat_risk_thresholds [OF h, of plain_formats] t
  have "case heat_analyze plain_formats ?c of Inl e \<Rightarrow> False | Inr an \<Rightarrow> risk_level an = ''High''"
    by (auto simp: Let_def split: sum.splits)
  with h show ?thesis by blast
qed

text \<open>
  Claim C9 as stated fails at the boundaries: 38 gives High, not Critical, and 32 gives
  Low, not Medium.
\<close>

theorem heat_boundary_counterexample:
  "temp_forecast ((ctx_of 4500 80)\<lparr>temperature := Some 38\<rparr>) = None \<and>
   map_sum id risk_level (heat_analyze plain_formats ((ctx_of 4500 80)\<lparr>temperature := Some 38\<rparr>))
     = Inr ''High'' \<and>
   temp_forecast ((ctx_of 4500 80)\<lparr>temperature := Some 32\<rparr>) = None \<and>
   map_sum id risk_level (heat_analyze plain_formats ((ctx_of 4500 80)\<lparr>temperature := Some 32\<rparr>))
     = Inr ''Low''"
  by code_simp

section \<open>Orchestration\<close>

lemma run_agents_fails:
  "isl (run_agents ags ctx) \<longleftrightarrow> (\<exists>a \<in> set ags. isl (analyze a ctx))"
  by (induction ags) (auto split: sum.splits)

lemma run_agents_error:
  "run_agents ags ctx = Inl e \<Longrightarrow> \<exists>a \<in> set ags. analyze a ctx = Inl e"
  by (induction ags) (auto split: sum.splits)

text \<open>
  Claim C8, as amended: when the \<^verbatim>\<open>analyze\<close> of some agent raises in a run that has
  assembled its context, \<^verbatim>\<open>orchestrate\<close> raises an exception that one of its agents raised
  and returns no result: the run aborts, nothing is recorded as degraded, and the analyses
  of the other agents are lost with it.
\<close>

theorem agent_failure_aborts:
  assumes "\<exists>a \<in> set ags. isl (analyze a ctx)"
  shows "\<exists>e. orchestrate cty now ags pe ctx = Inl e \<and> (\<exists>a \<in> set ags. analyze a ctx = Inl e)"
proof -
  let ?s = "sort_key agent_priority ags"
  from assms have "isl (run_agents ?s ctx)" by (simp add: run_agents_fails)
  then obtain e where e: "run_agents ?s ctx = Inl e" by (cases "run_agents ?s ctx") auto
  from run_agents_error [OF e] have "\<exists>a \<in> set ags. analyze a ctx = Inl e" by simp
  moreover from e have "orchestrate cty now ags pe ctx = Inl e" by (simp add: orchestrate_def)
  ultimately show ?thesis by blast
qed

theorem agent_failure_aborts_witness:
  "list_ex (\<lambda>a. isl (analyze a (ctx_of 4500 80))) [FloodAgent, base_agent ''Probe'' 5] \<and>
   \<not> isl (analyze FloodAgent (ctx_of 4500 80)) \<and>
   orchestrate ''Mumbai'' ''now'' [FloodAgent, base_agent ''Probe'' 5] True (ctx_of 4500 80)
     = Inl NotImplementedError"
proof -
  let ?c = "ctx_of 4500 80"
  have h1: "list_ex (\<lambda>a. isl (analyze a ?c)) [FloodAgent, base_agent ''Probe'' 5]"
    by (simp add: base_agent_def)
  have h2: "\<not> isl (analyze FloodAgent ?c)"
    by (simp add: FloodAgent_def flood_analyze_def Let_def)
  from h1 have h1': "\<exists>a \<in> set [FloodAgent, base_agent ''Probe'' 5]. isl (analyze a ?c)"
    by (simp only: list_ex_iff)
  from agent_failure_aborts [OF h1', of "''Mumbai''" "''now''" True]
  obtain e where "orchestrate ''Mumbai'' ''now'' [FloodAgent, base_agent ''Probe'' 5] True ?c = Inl e"
    by blast
  then have r1: "orchestrate ''Mumbai'' ''now'' [FloodAgent, base_agent ''Probe'' 5] True ?c
      = Inl NotImplementedError" by (cases e) simp
  from h1 h2 r1 show ?thesis by blast
qed

text \<open>
  Claim C8 as stated fails: with the flood agent and an agent of the base class, whose
  \<^verbatim>\<open>analyze\<close> raises \<^verbatim>\<open>NotImplementedError\<close>, the flood agent's analysis succeeds and the
  run still ends in the exception.
\<close>

theorem agent_failure_counterexample:
  "\<not> isl (analyze FloodAgent ((ctx_of 5000 80)\<lparr>flood_risk := Some ''High''\<rparr>)) \<and>
   orchestrate ''Mumbai'' ''now'' [FloodAgent, base_agent ''Probe'' 5] True
     ((ctx_of 5000 80)\<lparr>flood_risk := Some ''High''\<rparr>) = Inl NotImplementedError"
  by code_simp

text \<open>
  Claim C6, as amended: the result of \<^verbatim>\<open>orchestrate\<close> is determined by the context, the
  agents, the engine flag, the city and the clock reading, and the clock reading reaches
  the \<^verbatim>\<open>timestamp\<close> field only: two runs on the same context agree once the timestamp is
  overwritten.
\<close>

theorem clock_reaches_timestamp_only:
  "map_sum id (\<lambda>r. r\<lparr>timestamp := t\<rparr>) (orchestrate cty now1 ags pe ctx) =
   map_sum id (\<lambda>r. r\<lparr>timestamp := t\<rparr>) (orchestrate cty now2 ags pe ctx)"
  by (simp add: orchestrate_def Let_def split: sum.splits prod.splits)

theorem clock_reaches_timestamp_only_witness:
  "map_sum id (\<lambda>r. r\<lparr>timestamp := ''''\<rparr>)
     (orchestrate ''Mumbai'' ''2024-05-01T10:00:00'' [FloodAgent] True
        ((ctx_of 5000 80)\<lparr>flood_risk := Some ''High''\<rparr>)) =
   map_sum id (\<lambda>r. r\<lparr>timestamp := ''''\<rparr>)
     (orchestrate ''Mumbai'' ''2024-05-01T10:00:01'' [FloodAgent] True
        ((ctx_of 5000 80)\<lparr>flood_risk := Some ''High''\<rparr>))"
  by (rule clock_reaches_timestamp_only)

text \<open>
  Claim C6 as stated fails: two runs on the same context at different clock readings
  return different results.
\<close>

theorem orchestrate_timestamp_counterexample:
  "orchestrate ''Mumbai'' ''2024-05-01T10:00:00'' [FloodAgent] True
     ((ctx_of 5000 80)\<lparr>flood_risk := Some ''High''\<rparr>)
   \<noteq> orchestrate ''Mumbai'' ''2024-05-01T10:00:01'' [FloodAgent] True
       ((ctx_of 5000 80)\<lparr>flood_risk := Some ''High''\<rparr>)"
  by code_simp

end
